theory Spec2Isabelle
  imports Complex_Main
begin

section \<open>JavaScript values\<close>

text \<open>
  A number is an IEEE double. The four special values are constructors of their own;
  every other double is the rational it denotes, \<open>Finite 0\<close> being \<open>+0\<close>. Each double has
  exactly one representation, so that the comparisons below can be written out.
\<close>

datatype number = NaN | PosInfinity | NegInfinity | NegZero | Finite rat

text \<open>
  Functions, plain objects and arrays, and host display elements are references: a
  function by the identity of its function object, an object or array by its address in
  the heap, a display element by its number.
\<close>

datatype jsval =
    Undefined
  | Null
  | Boolean bool
  | Number number
  | Str string
  | BigInt int
  | Symbol nat
  | Function nat
  | Object nat
  | DomRef nat

fun typeof :: "jsval \<Rightarrow> string" where
  "typeof Undefined = ''undefined''"
| "typeof Null = ''object''"
| "typeof (Boolean b) = ''boolean''"
| "typeof (Number x) = ''number''"
| "typeof (Str s) = ''string''"
| "typeof (BigInt i) = ''bigint''"
| "typeof (Symbol k) = ''symbol''"
| "typeof (Function f) = ''function''"
| "typeof (Object a) = ''object''"
| "typeof (DomRef r) = ''object''"

text \<open>\<open>Object.is\<close>: same-value equality.\<close>

fun same_number :: "number \<Rightarrow> number \<Rightarrow> bool" where
  "same_number NaN y = (y = NaN)"
| "same_number NegZero y = (y = NegZero)"
| "same_number PosInfinity y = (y = PosInfinity)"
| "same_number NegInfinity y = (y = NegInfinity)"
| "same_number (Finite q) y = (case y of Finite r \<Rightarrow> q = r | _ \<Rightarrow> False)"

definition object_is :: "jsval \<Rightarrow> jsval \<Rightarrow> bool" where
  "object_is u v = (case (u, v) of (Number x, Number y) \<Rightarrow> same_number x y | _ \<Rightarrow> u = v)"

text \<open>\<open>===\<close>: strict equality, where \<open>NaN\<close> differs from itself and the two zeros agree.\<close>

definition zero_number :: "number \<Rightarrow> bool" where
  "zero_number x = (x = NegZero \<or> x = Finite 0)"

definition strict_equal_number :: "number \<Rightarrow> number \<Rightarrow> bool" where
  "strict_equal_number x y =
     (if x = NaN \<or> y = NaN then False
      else if zero_number x \<and> zero_number y then True
      else x = y)"

definition strict_equals :: "jsval \<Rightarrow> jsval \<Rightarrow> bool" where
  "strict_equals u v = (case (u, v) of (Number x, Number y) \<Rightarrow> strict_equal_number x y | _ \<Rightarrow> u = v)"

text \<open>Truthiness, as \<open>if (v)\<close> and \<open>&&\<close> read a value.\<close>

fun truthy :: "jsval \<Rightarrow> bool" where
  "truthy Undefined = False"
| "truthy Null = False"
| "truthy (Boolean b) = b"
| "truthy (Number x) = (x \<noteq> NaN \<and> x \<noteq> NegZero \<and> x \<noteq> Finite 0)"
| "truthy (Str s) = (s \<noteq> [])"
| "truthy (BigInt i) = (i \<noteq> 0)"
| "truthy v = True"

text \<open>The left operand of \<open>??\<close> and of \<open>?.\<close> is given up when it is \<open>null\<close> or \<open>undefined\<close>.\<close>

definition nullish :: "jsval \<Rightarrow> bool" where
  "nullish v = (v = Undefined \<or> v = Null)"

text \<open>The decimal form of an array index, as a property key.\<close>

definition digit :: "nat \<Rightarrow> char" where
  "digit d = char_of (48 + d)"

function show_nat :: "nat \<Rightarrow> string" where
  "show_nat n = (if n < 10 then [digit n] else show_nat (n div 10) @ [digit (n mod 10)])"
  by pat_completeness auto
termination
  by (relation "measure id") auto

declare show_nat.simps [simp del]

section \<open>Errors\<close>

text \<open>
  A \<open>TypeError\<close> is what the language raises on a property read of \<open>null\<close> or \<open>undefined\<close>
  and on a call of a value that is no function; \<open>HierarchyRequestError\<close> is the host's
  refusal to give a text node a child. \<open>Thrown\<close> is an exception of a component
  function or callback. \<open>OutOfFuel\<close> is not an exception: it is the answer of a run that was
  cut off by its step bound.
\<close>

datatype error = TypeError | HierarchyRequestError | Thrown jsval | OutOfFuel

section \<open>The heap, the display surface and the engine's variables\<close>

type_synonym props = "(string \<times> jsval) list"

text \<open>
  A plain object is the list of its own enumerable properties in key order, an array the
  list of its elements. A plain object is an ordinary object: what it inherits, it inherits
  from \<open>Object.prototype\<close> (see \<open>object_prototype\<close> below). Array holes are not part of the model.
\<close>

datatype obj = PlainObject props | ArrayObject "jsval list"

text \<open>
  A display node under construction is reachable from its builder only, so it is a value:
  its kind, the properties assigned to it, its listeners and its children.
\<close>

datatype dom_kind = ElementNode jsval | TextNode string

datatype dom_node =
  DomNode (node_kind: dom_kind) (assigned: props) (listeners: props) (child_nodes: "dom_node list")

text \<open>
  \<open>hooks\<close> and \<open>index\<close> are the variables closed over by \<open>init\<close>; \<open>g_component\<close>, \<open>g_root\<close> and
  \<open>g_hooks\<close> are \<open>_component\<close>, \<open>_root\<close> and \<open>_hooks\<close> of render.js (\<open>_hooks\<close> is only ever
  assigned the one hooks array, so it is recorded as set or not). \<open>display\<close> gives the children
  of every mount point. The record is extensible: what else a program keeps is in its
  extension, which the engine never reads.
\<close>

record world =
  heap :: "obj list"
  hooks :: "jsval list"
  index :: nat
  g_component :: jsval
  g_root :: jsval
  g_hooks :: bool
  display :: "nat \<Rightarrow> dom_node list"

text \<open>Component functions and callbacks, by the identity of the function object.\<close>

type_synonym 'u program =
  "nat \<Rightarrow> jsval list \<Rightarrow> 'u world_scheme \<Rightarrow> error + (jsval \<times> 'u world_scheme)"

definition call :: "'u program \<Rightarrow> jsval \<Rightarrow> jsval list \<Rightarrow> 'u world_scheme
    \<Rightarrow> error + (jsval \<times> 'u world_scheme)" where
  "call F f args w = (case f of Function k \<Rightarrow> F k args w | _ \<Rightarrow> Inl TypeError)"

subsection \<open>Reading and writing objects\<close>

definition fetch :: "obj list \<Rightarrow> jsval \<Rightarrow> obj option" where
  "fetch h v = (case v of Object a \<Rightarrow> (if a < length h then Some (h ! a) else None) | _ \<Rightarrow> None)"

definition alloc :: "obj \<Rightarrow> 'u world_scheme \<Rightarrow> jsval \<times> 'u world_scheme" where
  "alloc ob w = (Object (length (heap w)), w\<lparr>heap := heap w @ [ob]\<rparr>)"

definition lookup :: "props \<Rightarrow> string \<Rightarrow> jsval" where
  "lookup ps k = (case map_of ps k of Some v \<Rightarrow> v | None \<Rightarrow> Undefined)"

text \<open>\<open>xs[i]\<close> on an array: \<open>undefined\<close> past the end.\<close>

definition array_get :: "jsval list \<Rightarrow> nat \<Rightarrow> jsval" where
  "array_get xs i = (if i < length xs then xs ! i else Undefined)"

text \<open>\<open>xs[i] = v\<close> on an array: past the end the array grows, the gap reading \<open>undefined\<close>.\<close>

definition array_set :: "jsval list \<Rightarrow> nat \<Rightarrow> jsval \<Rightarrow> jsval list" where
  "array_set xs i v =
     (if i < length xs then xs[i := v] else xs @ replicate (i - length xs) Undefined @ [v])"

text \<open>\<open>v.name\<close> for the names the engine reads: \<open>type\<close>, \<open>props\<close>, \<open>children\<close>.\<close>

definition get_field :: "obj list \<Rightarrow> jsval \<Rightarrow> string \<Rightarrow> error + jsval" where
  "get_field h v name =
     (if nullish v then Inl TypeError
      else case fetch h v of Some (PlainObject ps) \<Rightarrow> Inr (lookup ps name) | _ \<Rightarrow> Inr Undefined)"

text \<open>\<open>v?.name\<close>.\<close>

definition get_field_opt :: "obj list \<Rightarrow> jsval \<Rightarrow> string \<Rightarrow> jsval" where
  "get_field_opt h v name =
     (case fetch h v of Some (PlainObject ps) \<Rightarrow> lookup ps name | _ \<Rightarrow> Undefined)"

text \<open>\<open>v[i]\<close> for a value that is not \<open>null\<close> or \<open>undefined\<close>.\<close>

definition index_get :: "obj list \<Rightarrow> jsval \<Rightarrow> nat \<Rightarrow> jsval" where
  "index_get h v i =
     (case v of
        Str s \<Rightarrow> (if i < length s then Str [s ! i] else Undefined)
      | _ \<Rightarrow> (case fetch h v of
                Some (ArrayObject xs) \<Rightarrow> array_get xs i
              | Some (PlainObject ps) \<Rightarrow> lookup ps (show_nat i)
              | None \<Rightarrow> Undefined))"

text \<open>The own enumerable properties of a value that is not \<open>null\<close> or \<open>undefined\<close>, in the
  order of \<open>Object.keys\<close>.\<close>

definition own_props :: "obj list \<Rightarrow> jsval \<Rightarrow> props" where
  "own_props h v =
     (case v of
        Str s \<Rightarrow> map (\<lambda>i. (show_nat i, Str [s ! i])) [0..<length s]
      | _ \<Rightarrow> (case fetch h v of
                Some (PlainObject ps) \<Rightarrow> ps
              | Some (ArrayObject xs) \<Rightarrow> map (\<lambda>i. (show_nat i, xs ! i)) [0..<length xs]
              | None \<Rightarrow> []))"


text \<open>\<open>obj[key] = v\<close> on a property list: an existing key keeps its place.\<close>

fun assign :: "props \<Rightarrow> string \<Rightarrow> jsval \<Rightarrow> props" where
  "assign [] k v = [(k, v)]"
| "assign ((k', v') # ps) k v = (if k' = k then (k, v) # ps else (k', v') # assign ps k v)"

text \<open>
  \<open>base[i] = v\<close> in module (strict) code: \<open>null\<close>, \<open>undefined\<close> and primitives raise; an array is
  written in place; a plain object gets the property (among integer keys it is kept in
  insertion order); functions and display elements carry no properties here.
\<close>

definition index_set :: "jsval \<Rightarrow> nat \<Rightarrow> jsval \<Rightarrow> 'u world_scheme \<Rightarrow> error + 'u world_scheme" where
  "index_set base i v w =
     (case base of
        Object a \<Rightarrow>
          (if a < length (heap w) then
             (case heap w ! a of
                ArrayObject xs \<Rightarrow> Inr (w\<lparr>heap := (heap w)[a := ArrayObject (array_set xs i v)]\<rparr>)
              | PlainObject ps \<Rightarrow>
                  Inr (w\<lparr>heap := (heap w)[a := PlainObject (assign ps (show_nat i) v)]\<rparr>))
           else Inr w)
      | Function f \<Rightarrow> Inr w
      | DomRef r \<Rightarrow> Inr w
      | _ \<Rightarrow> Inl TypeError)"

section \<open>utils.js\<close>

text \<open>
  The names that every plain object inherits from \<open>Object.prototype\<close> in a browser. Their
  values are built-in objects of the host, each one distinct from the others and from every
  value a program makes: no \<open>jsval\<close> denotes one.
\<close>

definition object_prototype :: "string list" where
  "object_prototype =
     [''constructor'', ''__defineGetter__'', ''__defineSetter__'', ''hasOwnProperty'',
      ''__lookupGetter__'', ''__lookupSetter__'', ''isPrototypeOf'', ''propertyIsEnumerable'',
      ''toString'', ''valueOf'', ''__proto__'', ''toLocaleString'']"

text \<open>\<open>key in obj\<close> for a plain object: an own or an inherited name.\<close>

definition has_key :: "props \<Rightarrow> string \<Rightarrow> bool" where
  "has_key ps key = (key \<in> set (map fst ps) \<or> key \<in> set object_prototype)"

text \<open>
  \<open>obj[key]\<close> for a plain object and any key: the own value, else the inherited built-in
  (\<open>Inl\<close> of its name), else \<open>undefined\<close>.
\<close>

definition get_member :: "props \<Rightarrow> string \<Rightarrow> string + jsval" where
  "get_member ps key =
     (case map_of ps key of
        Some v \<Rightarrow> Inr v
      | None \<Rightarrow> if key \<in> set object_prototype then Inl key else Inr Undefined)"

definition isEvent :: "string \<Rightarrow> bool" where
  "isEvent key = (take 2 key = ''on'')"

definition isNew :: "props \<Rightarrow> props \<Rightarrow> string \<Rightarrow> bool" where
  "isNew prev next key =
     (case (get_member prev key, get_member next key) of
        (Inr u, Inr v) \<Rightarrow> \<not> strict_equals u v
      | (Inl a, Inl b) \<Rightarrow> a \<noteq> b
      | _ \<Rightarrow> True)"

definition isProperty :: "string \<Rightarrow> bool" where
  "isProperty key = (key \<noteq> ''children'' \<and> \<not> isEvent key)"

definition isGone :: "props \<Rightarrow> props \<Rightarrow> string \<Rightarrow> bool" where
  "isGone prev next key = (\<not> has_key next key)"

section \<open>render.js: the display projector\<close>

text \<open>
  The host display surface. \<open>document.createElement\<close> keeps its argument as the tag (the host
  turns it into a string, and names are taken to be valid); \<open>dom[name] = v\<close> is recorded in
  \<open>assigned\<close>; a listener is registered once per event type and handler, and not at all
  when it is \<open>null\<close> or \<open>undefined\<close>.
\<close>

definition document_createElement :: "jsval \<Rightarrow> dom_node" where
  "document_createElement tag = DomNode (ElementNode tag) [] [] []"

definition document_createTextNode :: "string \<Rightarrow> dom_node" where
  "document_createTextNode s = DomNode (TextNode s) [] [] []"

definition appendChild :: "dom_node \<Rightarrow> dom_node \<Rightarrow> error + dom_node" where
  "appendChild parent child =
     (case node_kind parent of
        TextNode s \<Rightarrow> Inl HierarchyRequestError
      | ElementNode t \<Rightarrow>
          Inr (DomNode (node_kind parent) (assigned parent) (listeners parent)
                 (child_nodes parent @ [child])))"

datatype dom_op =
    RemoveEventListener string jsval
  | SetProperty string jsval
  | AddEventListener string jsval

fun perform :: "dom_node \<Rightarrow> dom_op \<Rightarrow> dom_node" where
  "perform (DomNode k fs ls cs) (RemoveEventListener t h) = DomNode k fs (remove1 (t, h) ls) cs"
| "perform (DomNode k fs ls cs) (SetProperty name v) = DomNode k (assign fs name v) ls cs"
| "perform (DomNode k fs ls cs) (AddEventListener t h) =
     DomNode k fs (if nullish h \<or> (t, h) \<in> set ls then ls else ls @ [(t, h)]) cs"

text \<open>\<open>name.toLowerCase().substring(2)\<close>, on the letters A to Z.\<close>

definition to_lower :: "char \<Rightarrow> char" where
  "to_lower c = (let k = (of_char c :: nat) in if 65 \<le> k \<and> k \<le> 90 then char_of (k + 32) else c)"

definition eventType :: "string \<Rightarrow> string" where
  "eventType name = drop 2 (map to_lower name)"

text \<open>
  The host calls \<open>updateDom\<close> makes, in the order it makes them: its four statements. Both
  property sets are plain objects; \<open>Object.keys\<close> gives their own names, so that \<open>prevProps[name]\<close>
  and \<open>nextProps[name]\<close> in the loop bodies read own values.
\<close>

definition updateDom_calls :: "props \<Rightarrow> props \<Rightarrow> dom_op list" where
  "updateDom_calls prevProps nextProps =
     map (\<lambda>name. RemoveEventListener (eventType name) (lookup prevProps name))
       (filter (\<lambda>key. \<not> has_key nextProps key \<or> isNew prevProps nextProps key)
          (filter isEvent (map fst prevProps)))
     @ map (\<lambda>name. SetProperty name (Str []))
         (filter (isGone prevProps nextProps) (filter isProperty (map fst prevProps)))
     @ map (\<lambda>name. SetProperty name (lookup nextProps name))
         (filter (isNew prevProps nextProps) (filter isProperty (map fst nextProps)))
     @ map (\<lambda>name. AddEventListener (eventType name) (lookup nextProps name))
         (filter (isNew prevProps nextProps) (filter isEvent (map fst nextProps)))"

definition updateDom :: "dom_node \<Rightarrow> props \<Rightarrow> props \<Rightarrow> dom_node" where
  "updateDom dnode prevProps nextProps = foldl perform dnode (updateDom_calls prevProps nextProps)"

text \<open>
  The two \<open>forEach\<close> loops of \<open>createDom\<close>, over the indices the array had when the loop
  began; each reads the element that is there when its turn comes. \<open>self\<close> is \<open>createDom\<close>.
\<close>

type_synonym 'u projector =
  "jsval \<Rightarrow> 'u world_scheme \<Rightarrow> error + (dom_node \<times> 'u world_scheme)"

definition is_array :: "obj list \<Rightarrow> jsval \<Rightarrow> bool" where
  "is_array h v = (case fetch h v of Some (ArrayObject xs) \<Rightarrow> True | _ \<Rightarrow> False)"

definition elements :: "obj list \<Rightarrow> jsval \<Rightarrow> jsval list" where
  "elements h v = (case fetch h v of Some (ArrayObject xs) \<Rightarrow> xs | _ \<Rightarrow> [])"

text \<open>\<open>dom.appendChild(createDom(child))\<close>.\<close>

definition append_created :: "'u projector \<Rightarrow> jsval \<Rightarrow> dom_node \<Rightarrow> 'u world_scheme
    \<Rightarrow> error + (dom_node \<times> 'u world_scheme)" where
  "append_created self child dnode w =
     (case self child w of
        Inl e \<Rightarrow> Inl e
      | Inr (created, w1) \<Rightarrow>
          (case appendChild dnode created of Inl e \<Rightarrow> Inl e | Inr dnode1 \<Rightarrow> Inr (dnode1, w1)))"

primrec forEach_child :: "'u projector \<Rightarrow> jsval \<Rightarrow> nat list \<Rightarrow> dom_node \<Rightarrow> 'u world_scheme
    \<Rightarrow> error + (dom_node \<times> 'u world_scheme)" where
  "forEach_child self arr [] dnode w = Inr (dnode, w)"
| "forEach_child self arr (i # is) dnode w =
     (if i < length (elements (heap w) arr) then
        (case append_created self (elements (heap w) arr ! i) dnode w of
           Inl e \<Rightarrow> Inl e
         | Inr (dnode1, w1) \<Rightarrow> forEach_child self arr is dnode1 w1)
      else forEach_child self arr is dnode w)"

text \<open>An element of \<open>props.children\<close> that is an array gives one display node per entry.\<close>

definition append_element :: "'u projector \<Rightarrow> jsval \<Rightarrow> dom_node \<Rightarrow> 'u world_scheme
    \<Rightarrow> error + (dom_node \<times> 'u world_scheme)" where
  "append_element self element dnode w =
     (if is_array (heap w) element
      then forEach_child self element [0..<length (elements (heap w) element)] dnode w
      else append_created self element dnode w)"

primrec forEach_element :: "'u projector \<Rightarrow> jsval \<Rightarrow> nat list \<Rightarrow> dom_node \<Rightarrow> 'u world_scheme
    \<Rightarrow> error + (dom_node \<times> 'u world_scheme)" where
  "forEach_element self arr [] dnode w = Inr (dnode, w)"
| "forEach_element self arr (i # is) dnode w =
     (if i < length (elements (heap w) arr) then
        (case append_element self (elements (heap w) arr ! i) dnode w of
           Inl e \<Rightarrow> Inl e
         | Inr (dnode1, w1) \<Rightarrow> forEach_element self arr is dnode1 w1)
      else forEach_element self arr is dnode w)"

text \<open>The part of \<open>createDom\<close> for a fiber that is a host element or a text node.\<close>

definition createDom_host :: "'u projector \<Rightarrow> jsval \<Rightarrow> jsval \<Rightarrow> 'u world_scheme
    \<Rightarrow> error + (dom_node \<times> 'u world_scheme)" where
  "createDom_host self fiber ty w =
     (let dnode = (if ty = Str ''TEXT_NODE'' then document_createTextNode []
                   else document_createElement ty);
          props = get_field_opt (heap w) fiber ''props'';
          dnode1 = updateDom dnode [] (if nullish props then [] else own_props (heap w) props);
          children = get_field_opt (heap w) props ''children''
      in if truthy children then
           (if is_array (heap w) children
            then forEach_element self children [0..<length (elements (heap w) children)] dnode1 w
            else Inl TypeError)
         else Inr (dnode1, w))"

text \<open>The body of \<open>createDom\<close>.\<close>

definition createDom_body :: "'u program \<Rightarrow> 'u projector \<Rightarrow> jsval \<Rightarrow> 'u world_scheme
    \<Rightarrow> error + (dom_node \<times> 'u world_scheme)" where
  "createDom_body F self fiber w =
     (if fiber = Null then Inr (document_createElement (Str ''div''), w)
      else
        (case get_field (heap w) fiber ''type'' of
           Inl e \<Rightarrow> Inl e
         | Inr ty \<Rightarrow>
             if typeof ty = ''function'' then
               (case call F ty [get_field_opt (heap w) fiber ''props''] w of
                  Inl e \<Rightarrow> Inl e
                | Inr (childElement, w1) \<Rightarrow> self childElement w1)
             else createDom_host self fiber ty w))"

text \<open>\<open>createDom\<close>, with a bound on the depth of its calls.\<close>

primrec createDom :: "'u program \<Rightarrow> nat \<Rightarrow> jsval \<Rightarrow> 'u world_scheme
    \<Rightarrow> error + (dom_node \<times> 'u world_scheme)" where
  "createDom F 0 = (\<lambda>fiber w. Inl OutOfFuel)"
| "createDom F (Suc n) = createDom_body F (createDom F n)"

section \<open>render.js: the reconciler\<close>

type_synonym 'u reconciler =
  "jsval \<Rightarrow> 'u world_scheme \<Rightarrow> error + (jsval \<times> 'u world_scheme)"

text \<open>
  \<open>component.map(reconcile)\<close>: the results in order, over the indices the array had when the
  loop began (an index the array has lost by its turn gives \<open>undefined\<close>). \<open>self\<close> is
  \<open>reconcile\<close>; its \<open>root\<close> argument is passed along and never read, so it is left out.
\<close>

primrec map_reconcile :: "'u reconciler \<Rightarrow> jsval \<Rightarrow> nat list \<Rightarrow> jsval list \<Rightarrow> 'u world_scheme
    \<Rightarrow> error + (jsval list \<times> 'u world_scheme)" where
  "map_reconcile self arr [] acc w = Inr (acc, w)"
| "map_reconcile self arr (i # is) acc w =
     (if i < length (elements (heap w) arr) then
        (case self (elements (heap w) arr ! i) w of
           Inl e \<Rightarrow> Inl e
         | Inr (r, w1) \<Rightarrow> map_reconcile self arr is (acc @ [r]) w1)
      else map_reconcile self arr is (acc @ [Undefined]) w)"

text \<open>
  \<open>comp.props.children[i] = reconcile(comp.props.children[i], root)\<close>: the array is the one
  that \<open>comp.props.children\<close> is at that moment.
\<close>

definition replace_child :: "'u reconciler \<Rightarrow> jsval \<Rightarrow> nat \<Rightarrow> 'u world_scheme
    \<Rightarrow> error + 'u world_scheme" where
  "replace_child self comp' i w =
     (case get_field (heap w) comp' ''props'' of
        Inl e \<Rightarrow> Inl e
      | Inr props \<Rightarrow>
          (case get_field (heap w) props ''children'' of
             Inl e \<Rightarrow> Inl e
           | Inr base \<Rightarrow>
               if nullish base then Inl TypeError
               else
                 (case self (index_get (heap w) base i) w of
                    Inl e \<Rightarrow> Inl e
                  | Inr (r, w1) \<Rightarrow> index_set base i r w1)))"

text \<open>
  \<open>comp.props.children.forEach((child, i) => ...)\<close>: a child whose \<open>type\<close> is no string is
  replaced by what \<open>reconcile\<close> returns for it.
\<close>

primrec forEach_reconcile :: "'u reconciler \<Rightarrow> jsval \<Rightarrow> jsval \<Rightarrow> nat list \<Rightarrow> 'u world_scheme
    \<Rightarrow> error + 'u world_scheme" where
  "forEach_reconcile self comp' arr [] w = Inr w"
| "forEach_reconcile self comp' arr (i # is) w =
     (if i < length (elements (heap w) arr) then
        (case get_field (heap w) (elements (heap w) arr ! i) ''type'' of
           Inl e \<Rightarrow> Inl e
         | Inr child_type \<Rightarrow>
             (case (if typeof child_type \<noteq> ''string'' then replace_child self comp' i w
                    else Inr w) of
                Inl e \<Rightarrow> Inl e
              | Inr w1 \<Rightarrow> forEach_reconcile self comp' arr is w1))
      else forEach_reconcile self comp' arr is w)"

text \<open>\<open>typeof type === 'string' ? component : type()\<close>.\<close>

definition resolve :: "'u program \<Rightarrow> jsval \<Rightarrow> jsval \<Rightarrow> 'u world_scheme
    \<Rightarrow> error + (jsval \<times> 'u world_scheme)" where
  "resolve F ty component w =
     (if typeof ty = ''string'' then Inr (component, w) else call F ty [] w)"

text \<open>\<open>if (comp?.props && comp?.props?.children) { comp.props.children.forEach(...) }\<close>; only
  an array has \<open>forEach\<close>.\<close>

definition reconcile_children :: "'u reconciler \<Rightarrow> jsval \<Rightarrow> 'u world_scheme
    \<Rightarrow> error + 'u world_scheme" where
  "reconcile_children self comp' w =
     (let props = get_field_opt (heap w) comp' ''props'';
          children = get_field_opt (heap w) props ''children''
      in if truthy props \<and> truthy children then
           (if is_array (heap w) children then
              forEach_reconcile self comp' children [0..<length (elements (heap w) children)] w
            else Inl TypeError)
         else Inr w)"

text \<open>The body of \<open>reconcile\<close>.\<close>

definition reconcile_body :: "'u program \<Rightarrow> 'u reconciler \<Rightarrow> jsval \<Rightarrow> 'u world_scheme
    \<Rightarrow> error + (jsval \<times> 'u world_scheme)" where
  "reconcile_body F self component w =
     (case get_field (heap w) component ''type'' of
        Inl e \<Rightarrow> Inl e
      | Inr ty \<Rightarrow>
          if is_array (heap w) component then
            (case map_reconcile self component
                    [0..<length (elements (heap w) component)] [] w of
               Inl e \<Rightarrow> Inl e
             | Inr (rs, w1) \<Rightarrow> Inr (alloc (ArrayObject rs) w1))
          else
            (case resolve F ty component w of
               Inl e \<Rightarrow> Inl e
             | Inr (comp', w1) \<Rightarrow>
                 (case reconcile_children self comp' w1 of
                    Inl e \<Rightarrow> Inl e
                  | Inr w2 \<Rightarrow> Inr (comp', w2))))"

text \<open>\<open>reconcile\<close>, with a bound on the depth of its calls.\<close>

primrec reconcile :: "'u program \<Rightarrow> nat \<Rightarrow> jsval \<Rightarrow> 'u world_scheme
    \<Rightarrow> error + (jsval \<times> 'u world_scheme)" where
  "reconcile F 0 = (\<lambda>component w. Inl OutOfFuel)"
| "reconcile F (Suc n) = reconcile_body F (reconcile F n)"

section \<open>render.js: the render orchestrator\<close>

text \<open>\<open>while (root.firstChild) root.removeChild(root.firstChild)\<close>, on the list of children.\<close>

fun remove_children :: "dom_node list \<Rightarrow> dom_node list" where
  "remove_children [] = []"
| "remove_children (firstChild # rest) = remove_children rest"

text \<open>
  \<open>render(hooks)(component, root)\<close>. An argument that is \<open>undefined\<close> takes its default, the
  remembered value. A root that is no display element has none of the host's methods: the
  call fails.
\<close>

definition render :: "'u program \<Rightarrow> nat \<Rightarrow> jsval \<Rightarrow> jsval \<Rightarrow> 'u world_scheme
    \<Rightarrow> error + 'u world_scheme" where
  "render F n component_arg root_arg w =
     (let component = (if component_arg = Undefined then g_component w else component_arg);
          root = (if root_arg = Undefined then g_root w else root_arg)
      in case root of
           DomRef r \<Rightarrow>
             (let w0 = w\<lparr>display := (display w)(r := remove_children (display w r))\<rparr> in
              case reconcile F n component w0 of
                Inl e \<Rightarrow> Inl e
              | Inr (rootComponent, w1) \<Rightarrow>
                  (let w2 = w1\<lparr>g_hooks := True, g_component := component, g_root := root\<rparr> in
                   case createDom F n rootComponent w2 of
                     Inl e \<Rightarrow> Inl e
                   | Inr (dnode, w3) \<Rightarrow>
                       Inr (w3\<lparr>display := (display w3)(r := display w3 r @ [dnode])\<rparr>)))
         | _ \<Rightarrow> Inl TypeError)"

section \<open>init.js: the hook store and the node builder\<close>

text \<open>
  \<open>useState\<close> returns the state and the setter; the setter is the closure \<open>setState\<close> over
  \<open>currIndex\<close>, so the model returns \<open>currIndex\<close> and \<open>setState\<close> takes it as an argument.
\<close>

definition setState :: "'u program \<Rightarrow> nat \<Rightarrow> nat \<Rightarrow> jsval \<Rightarrow> 'u world_scheme
    \<Rightarrow> error + 'u world_scheme" where
  "setState F n currIndex newVal w =
     (let hasChanged = (\<not> object_is (array_get (hooks w) currIndex) newVal) in
      if hasChanged then
        render F n Undefined Undefined
          (w\<lparr>hooks := array_set (hooks w) currIndex newVal, index := 0\<rparr>)
      else Inr w)"

definition useState :: "jsval \<Rightarrow> 'u world_scheme \<Rightarrow> (jsval \<times> nat) \<times> 'u world_scheme" where
  "useState initialValue w =
     (let slot = array_get (hooks w) (index w);
          state = (if nullish slot then initialValue else slot);
          currIndex = index w
      in ((state, currIndex), w\<lparr>index := index w + 1\<rparr>))"

text \<open>\<open>depArr.some((dep, i) => !Object.is(dep, oldDeps[i]))\<close>; only an array has \<open>some\<close>.\<close>

definition some_changed :: "obj list \<Rightarrow> jsval \<Rightarrow> jsval \<Rightarrow> error + bool" where
  "some_changed h depArr oldDeps =
     (if is_array h depArr then
        Inr (list_ex (\<lambda>i. \<not> object_is (elements h depArr ! i) (index_get h oldDeps i))
               [0..<length (elements h depArr)])
      else Inl TypeError)"

definition useEffect :: "'u program \<Rightarrow> jsval \<Rightarrow> jsval \<Rightarrow> 'u world_scheme
    \<Rightarrow> error + 'u world_scheme" where
  "useEffect F callback depArr w =
     (let oldDeps = array_get (hooks w) (index w) in
      case (if truthy oldDeps then some_changed (heap w) depArr oldDeps else Inr True) of
        Inl e \<Rightarrow> Inl e
      | Inr shouldRunEffect \<Rightarrow>
          (case (if shouldRunEffect then call F callback [] w else Inr (Undefined, w)) of
             Inl e \<Rightarrow> Inl e
           | Inr (returned, w1) \<Rightarrow>
               Inr (w1\<lparr>hooks := array_set (hooks w1) (index w1) depArr,
                       index := index w1 + 1\<rparr>)))"

text \<open>
  \<open>createElement(type, props, ...children)\<close>. A text node is the three objects of its
  literal; \<open>{...props, children}\<close> copies the own properties of \<open>props\<close> (none for \<open>null\<close> and
  \<open>undefined\<close>) and then sets \<open>children\<close>.
\<close>

definition text_node :: "jsval \<Rightarrow> 'u world_scheme \<Rightarrow> jsval \<times> 'u world_scheme" where
  "text_node child w =
     (let (no_children, w1) = alloc (ArrayObject []) w;
          (props, w2) = alloc (PlainObject [(''nodeValue'', child), (''children'', no_children)]) w1
      in alloc (PlainObject [(''type'', Str ''TEXT_NODE''), (''props'', props)]) w2)"

primrec normalize :: "jsval list \<Rightarrow> 'u world_scheme \<Rightarrow> jsval list \<times> 'u world_scheme" where
  "normalize [] w = ([], w)"
| "normalize (child # children) w =
     (let (c, w1) = (if typeof child = ''object'' then (child, w) else text_node child w);
          (cs, w2) = normalize children w1
      in (c # cs, w2))"

definition createElement :: "jsval \<Rightarrow> jsval \<Rightarrow> jsval list \<Rightarrow> 'u world_scheme
    \<Rightarrow> jsval \<times> 'u world_scheme" where
  "createElement ty props children w =
     (let (cs, w1) = normalize children w;
          (normalizedChildren, w2) = alloc (ArrayObject cs) w1;
          (props1, w3) =
             alloc (PlainObject
                      (assign (if nullish props then [] else own_props (heap w2) props)
                         ''children'' normalizedChildren)) w2
      in alloc (PlainObject [(''type'', ty), (''props'', props1)]) w3)"

text \<open>The state \<open>init\<close> starts from: no hook slot, the cursor at zero, nothing remembered.\<close>

definition init :: "'u \<Rightarrow> 'u world_scheme" where
  "init u = \<lparr>heap = [], hooks = [], index = 0, g_component = Null, g_root = Null,
             g_hooks = False, display = (\<lambda>r. []), \<dots> = u\<rparr>"

section \<open>Property synchronization, as the specification words it\<close>

text \<open>
  The four phases of the specification, for a reading of ``absent'' and a reading of ``new or
  changed'' that are given as predicates on names. Which names are event names and which are
  plain properties is the answer of the classification helpers, to which the specification
  leaves it.
\<close>

definition remove_listeners :: "(string \<Rightarrow> bool) \<Rightarrow> (string \<Rightarrow> bool) \<Rightarrow> props \<Rightarrow> dom_op list" where
  "remove_listeners absent changed prev =
     [RemoveEventListener (eventType name) (lookup prev name).
        name \<leftarrow> map fst prev, isEvent name \<and> (absent name \<or> changed name)]"

definition clear_properties :: "(string \<Rightarrow> bool) \<Rightarrow> props \<Rightarrow> dom_op list" where
  "clear_properties absent prev =
     [SetProperty name (Str []). name \<leftarrow> map fst prev, isProperty name \<and> absent name]"

definition apply_properties :: "(string \<Rightarrow> bool) \<Rightarrow> props \<Rightarrow> dom_op list" where
  "apply_properties changed next =
     [SetProperty name (lookup next name). name \<leftarrow> map fst next, isProperty name \<and> changed name]"

definition attach_listeners :: "(string \<Rightarrow> bool) \<Rightarrow> props \<Rightarrow> dom_op list" where
  "attach_listeners changed next =
     [AddEventListener (eventType name) (lookup next name).
        name \<leftarrow> map fst next, isEvent name \<and> changed name]"

text \<open>
  The plain reading. A name is absent from a set that has no property of that name. A
  property is new or changed when the other set has no property of its name, or has it with
  another value.
\<close>

definition absent_from :: "props \<Rightarrow> string \<Rightarrow> bool" where
  "absent_from ps name = (map_of ps name = None)"

definition new_or_changed :: "props \<Rightarrow> props \<Rightarrow> string \<Rightarrow> bool" where
  "new_or_changed prev next name = (map_of prev name \<noteq> map_of next name)"

text \<open>
  The narrower reading. A name is nowhere in a set that neither has nor inherits it. The two
  sets are not identical at a name when the values they give for it are not strictly equal:
  two own values that \<open>===\<close> tells apart, or one own value beside no own value, unless that own
  value is \<open>undefined\<close> and the name is not an inherited one.
\<close>

definition nowhere_in :: "props \<Rightarrow> string \<Rightarrow> bool" where
  "nowhere_in ps name = (map_of ps name = None \<and> name \<notin> set object_prototype)"

definition not_identical :: "props \<Rightarrow> props \<Rightarrow> string \<Rightarrow> bool" where
  "not_identical prev next name =
     (case (map_of prev name, map_of next name) of
        (Some u, Some v) \<Rightarrow> \<not> strict_equals u v
      | (Some u, None) \<Rightarrow> name \<in> set object_prototype \<or> u \<noteq> Undefined
      | (None, Some v) \<Rightarrow> name \<in> set object_prototype \<or> v \<noteq> Undefined
      | (None, None) \<Rightarrow> False)"

text \<open>
  A regular property set: no name that plain objects inherit, and no value among
  \<open>undefined\<close>, \<open>NaN\<close> and \<open>-0\<close>.
\<close>

definition regular :: "props \<Rightarrow> bool" where
  "regular ps =
     list_all (\<lambda>(name, v). name \<notin> set object_prototype \<and> v \<noteq> Undefined
                 \<and> v \<noteq> Number NaN \<and> v \<noteq> Number NegZero) ps"

text \<open>Two property sets of one display element, before and after an update.\<close>

definition props_before :: props where
  "props_before =
     [(''onClick'', Function 1), (''onInput'', Function 3), (''title'', Str ''a''),
      (''lang'', Str ''en''), (''hidden'', Boolean True), (''children'', Object 0)]"

definition props_after :: props where
  "props_after =
     [(''onClick'', Function 2), (''onInput'', Function 3), (''id'', Str ''b''),
      (''lang'', Str ''en''), (''hidden'', Boolean False), (''children'', Object 1),
      (''onKeyDown'', Function 4)]"

section \<open>Predicates of the statements\<close>

text \<open>A reference is allocated when its address is in the heap; other values always are.\<close>

definition allocated :: "obj list \<Rightarrow> jsval \<Rightarrow> bool" where
  "allocated h v = (case v of Object a \<Rightarrow> a < length h | _ \<Rightarrow> True)"

text \<open>\<open>v\<close> is a text node for \<open>child\<close>: the three objects of the literal in \<open>createElement\<close>.\<close>

definition is_text_node :: "obj list \<Rightarrow> jsval \<Rightarrow> jsval \<Rightarrow> bool" where
  "is_text_node h v child =
     (let props = get_field_opt h v ''props''; children = get_field_opt h props ''children''
      in fetch h v = Some (PlainObject [(''type'', Str ''TEXT_NODE''), (''props'', props)])
         \<and> fetch h props = Some (PlainObject [(''nodeValue'', child), (''children'', children)])
         \<and> fetch h children = Some (ArrayObject []))"

text \<open>The entries of \<open>node.props.children\<close>.\<close>

definition children_of :: "obj list \<Rightarrow> jsval \<Rightarrow> jsval list" where
  "children_of h node =
     elements h (get_field_opt h (get_field_opt h node ''props'') ''children'')"

text \<open>The hook store and the cursor are the same in two states.\<close>

definition same_store :: "'u world_scheme \<Rightarrow> 'u world_scheme \<Rightarrow> bool" where
  "same_store w w' = (hooks w' = hooks w \<and> index w' = index w)"

text \<open>No function of the program, when it returns, has changed the hook store or the cursor:
  the program calls no hook.\<close>

definition keeps_store :: "'u program \<Rightarrow> bool" where
  "keeps_store F = (\<forall>f args w r w'. F f args w = Inr (r, w') \<longrightarrow> same_store w w')"



text \<open>
  What reconciliation leaves of the nodes in a heap \<open>h\<close>. A node's kind is a plain tag when
  its \<open>type\<close> is a string. An array keeps its length, and an entry may differ only where the
  old entry's kind is no plain tag. A plain object, which is what a node and its property
  object are, stays as it is. \<open>nodes_kept h h'\<close>: every object of \<open>h\<close> is kept so in \<open>h'\<close>.
\<close>

definition string_kind :: "obj list \<Rightarrow> jsval \<Rightarrow> bool" where
  "string_kind h v = (typeof (get_field_opt h v ''type'') = ''string'')"

definition entries_kept :: "obj list \<Rightarrow> jsval list \<Rightarrow> jsval list \<Rightarrow> bool" where
  "entries_kept h xs ys =
     (length ys = length xs
      \<and> list_all (\<lambda>i. ys ! i = xs ! i \<or> \<not> string_kind h (xs ! i)) [0..<length xs])"

fun object_kept :: "obj list \<Rightarrow> obj \<Rightarrow> obj \<Rightarrow> bool" where
  "object_kept h (PlainObject ps) ob = (ob = PlainObject ps)"
| "object_kept h (ArrayObject xs) (ArrayObject ys) = entries_kept h xs ys"
| "object_kept h (ArrayObject xs) (PlainObject ps) = False"

definition nodes_kept :: "obj list \<Rightarrow> obj list \<Rightarrow> bool" where
  "nodes_kept h h' =
     (length h \<le> length h' \<and> list_all (\<lambda>a. object_kept h (h ! a) (h' ! a)) [0..<length h])"

text \<open>No function of the program does more to the objects that exist when it is called.\<close>

definition keeps_nodes :: "'u program \<Rightarrow> bool" where
  "keeps_nodes F = (\<forall>f args w r w'. F f args w = Inr (r, w') \<longrightarrow> nodes_kept (heap w) (heap w'))"

text \<open>\<open>arr\<close> is the array that \<open>c.props.children\<close> is.\<close>

definition children_link :: "obj list \<Rightarrow> jsval \<Rightarrow> jsval \<Rightarrow> bool" where
  "children_link h c arr =
     (\<exists>cps pps. fetch h c = Some (PlainObject cps)
        \<and> fetch h (lookup cps ''props'') = Some (PlainObject pps)
        \<and> lookup pps ''children'' = arr \<and> is_array h arr)"

text \<open>
  The turn of the loop over the children array at address \<open>a\<close> for index \<open>i\<close>, from state \<open>w\<close> to
  state \<open>w'\<close>: an entry whose kind is a plain tag is passed over; for any other entry
  \<open>reconcile\<close> is called on it, and what the call returns is stored at index \<open>i\<close> of the array, in
  the state the call left.
\<close>

definition entry_resolved :: "'u program \<Rightarrow> nat \<Rightarrow> nat \<Rightarrow> nat \<Rightarrow> 'u world_scheme \<Rightarrow> 'u world_scheme
    \<Rightarrow> bool" where
  "entry_resolved F n a i w w' =
     (if string_kind (heap w) (elements (heap w) (Object a) ! i) then w' = w
      else (\<exists>r w1. reconcile F n (elements (heap w) (Object a) ! i) w = Inr (r, w1)
              \<and> w' = w1\<lparr>heap := (heap w1)
                         [a := ArrayObject ((elements (heap w1) (Object a))[i := r])]\<rparr>))"

section \<open>Test programs\<close>

text \<open>
  The programs the scenarios run. Their state beside the engine's is two counters: how often
  a component function was entered and how often an effect callback ran.
\<close>

record probed = world +
  renders :: nat
  effects :: nat

definition start :: probed where
  "start = init (probed.fields 0 0)"

text \<open>Successive calls of the setter of slot \<open>i\<close>, stopping at the first failure.\<close>

fun setter_calls :: "'u program \<Rightarrow> nat \<Rightarrow> nat \<Rightarrow> jsval list \<Rightarrow> 'u world_scheme
    \<Rightarrow> error + 'u world_scheme" where
  "setter_calls F n i [] w = Inr w"
| "setter_calls F n i (v # vs) w =
     (case setState F n i v w of Inl e \<Rightarrow> Inl e | Inr w1 \<Rightarrow> setter_calls F n i vs w1)"

text \<open>
  Modelled from the spec: the counter component of its scenario, with one state hook
  initialized to 0 and the count as its text. Function 0 is
  \<^verbatim>\<open>function Counter() { const [count, setCount] = useState(0); return <div>{count}</div>; }\<close>
  mounted by \<^verbatim>\<open>render(<Counter />, root)\<close>.
\<close>

definition counter_app :: "nat \<Rightarrow> jsval list \<Rightarrow> probed \<Rightarrow> error + (jsval \<times> probed)" where
  "counter_app f args w =
     (if f = 0 then
        (let ((count, setCount), w1) = useState (Number (Finite 0)) (w\<lparr>renders := renders w + 1\<rparr>)
         in Inr (createElement (Str ''div'') Null [count] w1))
      else Inr (Undefined, w))"

definition counter_mounted :: "error + probed" where
  "counter_mounted =
     (let (app, w) = createElement (Function 0) Null [] start
      in render counter_app 3 app (DomRef 0) w)"


definition displays :: "jsval \<Rightarrow> dom_node list" where
  "displays v =
     [DomNode (ElementNode (Str ''div'')) [] []
        [DomNode (TextNode []) [(''nodeValue'', v)] [] []]]"

text \<open>
  Modelled from the spec: the component of its scenario that calls the effect hook with an
  empty dependency list and has a state of its own. Function 1 is the callback \<open>fn\<close>, which
  counts its runs, and function 0 is
  \<^verbatim>\<open>function App() { const [n, setN] = useState(0); useEffect(fn, []); return <div>{n}</div>; }\<close>
\<close>

definition callbacks :: "nat \<Rightarrow> jsval list \<Rightarrow> probed \<Rightarrow> error + (jsval \<times> probed)" where
  "callbacks f args w =
     (if f = 1 then Inr (Undefined, w\<lparr>effects := effects w + 1\<rparr>) else Inr (Undefined, w))"

definition effect_app :: "nat \<Rightarrow> jsval list \<Rightarrow> probed \<Rightarrow> error + (jsval \<times> probed)" where
  "effect_app f args w =
     (if f = 0 then
        (let ((n, setN), w1) = useState (Number (Finite 0)) (w\<lparr>renders := renders w + 1\<rparr>);
             (deps, w2) = alloc (ArrayObject []) w1
         in case useEffect callbacks (Function 1) deps w2 of
              Inl e \<Rightarrow> Inl e
            | Inr w3 \<Rightarrow> Inr (createElement (Str ''div'') Null [n] w3))
      else callbacks f args w)"

definition effect_mounted :: "error + probed" where
  "effect_mounted =
     (let (app, w) = createElement (Function 0) Null [] start
      in render effect_app 3 app (DomRef 0) w)"


text \<open>Two dependency lists in the heap: \<open>[1, 2]\<close> at address 0 and \<open>[1]\<close> at address 1.\<close>

definition two_lists :: probed where
  "two_lists = start\<lparr>heap := [ArrayObject [Number (Finite 1), Number (Finite 2)],
                              ArrayObject [Number (Finite 1)]]\<rparr>"

text \<open>The property object \<^verbatim>\<open>{className: 'x'}\<close> at address 0.\<close>

definition class_x :: probed where
  "class_x = start\<lparr>heap := [PlainObject [(''className'', Str ''x'')]]\<rparr>"

text \<open>
  A program without hooks: every function is \<^verbatim>\<open>function Hello() { return <p>hello</p>; }\<close>.
  It is mounted from a state whose hook store holds one slot and whose cursor is 1.
\<close>

definition static_app :: "nat \<Rightarrow> jsval list \<Rightarrow> probed \<Rightarrow> error + (jsval \<times> probed)" where
  "static_app f args w = Inr (createElement (Str ''p'') Null [Str ''hello''] w)"

definition static_root :: "jsval \<times> probed" where
  "static_root =
     createElement (Function 0) Null [] (start\<lparr>hooks := [Number (Finite 7)], index := 1\<rparr>)"

text \<open>A program whose every function returns \<open>v\<close> and does nothing else.\<close>

definition returning :: "jsval \<Rightarrow> nat \<Rightarrow> jsval list \<Rightarrow> probed \<Rightarrow> error + (jsval \<times> probed)" where
  "returning v f args w = Inr (v, w)"

text \<open>The tree \<^verbatim>\<open><div><Hello /></div>\<close>, built by the node builder.\<close>

definition wrapped_tree :: "jsval \<times> probed" where
  "wrapped_tree =
     (let (child, w1) = createElement (Function 0) Null [] start
      in createElement (Str ''div'') Null [child] w1)"

section \<open>Basic facts\<close>

lemma object_is_eq: "object_is u v = (u = v)"
  apply (cases u; cases v; simp add: object_is_def)
  subgoal for x y by (cases x; cases y; simp)
  done

lemma array_get_set: "array_get (array_set xs i v) i = v"
  by (simp add: array_get_def array_set_def nth_append)

lemma comprehension_filter:
  "[f k. k \<leftarrow> ks, P k \<and> Q k] = map f (filter Q (filter P ks))"
  by (induction ks) auto


lemma not_has_key: "(\<not> has_key next name) = nowhere_in next name"
  by (auto simp add: has_key_def nowhere_in_def map_of_eq_None_iff)

lemma strict_equals_undefined: "strict_equals v Undefined = (v = Undefined)"
  "strict_equals Undefined v = (v = Undefined)"
  by (cases v; auto simp add: strict_equals_def)+

lemma isNew_not_identical: "isNew prev next name = not_identical prev next name"
  by (auto simp add: isNew_def get_member_def not_identical_def strict_equals_undefined
      split: option.splits)

lemma strict_equals_regular:
  "u \<noteq> Number NaN \<Longrightarrow> u \<noteq> Number NegZero \<Longrightarrow> v \<noteq> Number NaN \<Longrightarrow> v \<noteq> Number NegZero \<Longrightarrow>
     strict_equals u v = (u = v)"
  by (cases u; cases v; auto simp add: strict_equals_def strict_equal_number_def zero_number_def)

lemma regular_member:
  assumes "regular ps" and "name \<in> set (map fst ps)"
  shows "name \<notin> set object_prototype
     \<and> (\<exists>v. map_of ps name = Some v \<and> v \<noteq> Undefined \<and> v \<noteq> Number NaN \<and> v \<noteq> Number NegZero)"
proof -
  from assms(2) obtain v where v: "map_of ps name = Some v"
    by (cases "map_of ps name") (auto simp add: map_of_eq_None_iff)
  then have "(name, v) \<in> set ps" by (rule map_of_SomeD)
  with assms(1) v show ?thesis by (auto simp add: regular_def list_all_iff)
qed

lemma regular_value:
  assumes "regular ps" and "map_of ps name = Some v"
  shows "v \<noteq> Undefined \<and> v \<noteq> Number NaN \<and> v \<noteq> Number NegZero"
  using assms map_of_SomeD [OF assms(2)] by (auto simp add: regular_def list_all_iff)

lemma regular_absent:
  assumes "regular prev" and "name \<in> set (map fst prev)"
  shows "nowhere_in next name = absent_from next name"
  using regular_member [OF assms] by (simp add: nowhere_in_def absent_from_def)

lemma regular_changed_prev:
  assumes "regular prev" and "regular next" and "name \<in> set (map fst prev)"
  shows "not_identical prev next name = new_or_changed prev next name"
proof -
  from regular_member [OF assms(1,3)] obtain u where
    u: "name \<notin> set object_prototype" "map_of prev name = Some u" "u \<noteq> Undefined"
      "u \<noteq> Number NaN" "u \<noteq> Number NegZero"
    by blast
  show ?thesis
  proof (cases "map_of next name")
    case None
    with u show ?thesis by (simp add: not_identical_def new_or_changed_def)
  next
    case (Some v)
    from regular_value [OF assms(2) Some] u Some show ?thesis
      by (simp add: not_identical_def new_or_changed_def strict_equals_regular)
  qed
qed

lemma regular_changed_next:
  assumes "regular prev" and "regular next" and "name \<in> set (map fst next)"
  shows "not_identical prev next name = new_or_changed prev next name"
proof -
  from regular_member [OF assms(2,3)] obtain v where
    v: "name \<notin> set object_prototype" "map_of next name = Some v" "v \<noteq> Undefined"
      "v \<noteq> Number NaN" "v \<noteq> Number NegZero"
    by blast
  show ?thesis
  proof (cases "map_of prev name")
    case None
    with v show ?thesis by (simp add: not_identical_def new_or_changed_def)
  next
    case (Some u)
    from regular_value [OF assms(1) Some] v Some show ?thesis
      by (simp add: not_identical_def new_or_changed_def strict_equals_regular)
  qed
qed

lemma some_changed_arrays:
  "fetch h depArr = Some (ArrayObject d1) \<Longrightarrow> fetch h oldDeps = Some (ArrayObject d0) \<Longrightarrow>
   some_changed h depArr oldDeps = Inr (\<exists>i<length d1. \<not> object_is (d1 ! i) (array_get d0 i))"
  apply (simp add: some_changed_def is_array_def elements_def index_get_def list_ex_iff)
  apply (cases oldDeps; simp add: fetch_def)
  apply auto
  done

lemma truthy_fetched: "fetch h v = Some ob \<Longrightarrow> truthy v"
  by (cases v) (simp_all add: fetch_def)

lemma useEffect_gate:
  assumes "fetch (heap w) (array_get (hooks w) (index w)) = Some (ArrayObject d0)"
    and "fetch (heap w) depArr = Some (ArrayObject d1)"
  shows "useEffect F callback depArr w =
     (if \<exists>i<length d1. \<not> object_is (d1 ! i) (array_get d0 i)
      then (case call F callback [] w of
              Inl e \<Rightarrow> Inl e
            | Inr (returned, w1) \<Rightarrow>
                Inr (w1\<lparr>hooks := array_set (hooks w1) (index w1) depArr, index := index w1 + 1\<rparr>))
      else Inr (w\<lparr>hooks := array_set (hooks w) (index w) depArr, index := index w + 1\<rparr>))"
  using assms
  by (auto simp add: useEffect_def Let_def truthy_fetched some_changed_arrays)

lemma useEffect_first:
  assumes "\<not> truthy (array_get (hooks w) (index w))"
  shows "useEffect F callback depArr w =
     (case call F callback [] w of
        Inl e \<Rightarrow> Inl e
      | Inr (returned, w1) \<Rightarrow>
          Inr (w1\<lparr>hooks := array_set (hooks w1) (index w1) depArr, index := index w1 + 1\<rparr>))"
  using assms by (simp add: useEffect_def Let_def)


lemma fetch_append: "fetch h v = Some ob \<Longrightarrow> fetch (h @ ext) v = Some ob"
  by (cases v) (auto simp add: fetch_def nth_append split: if_splits)

lemma get_field_opt_append:
  "fetch h v = Some ob \<Longrightarrow> get_field_opt (h @ ext) v name = get_field_opt h v name"
  by (simp add: get_field_opt_def fetch_append)

lemma get_field_opt_fetched:
  "fetch h v = Some (PlainObject ps) \<Longrightarrow> get_field_opt h v name = lookup ps name"
  by (simp add: get_field_opt_def)

lemma alloc_heap: "alloc ob w = (v, w') \<Longrightarrow> heap w' = heap w @ [ob]"
  by (auto simp add: alloc_def)

lemma alloc_fetched: "alloc ob w = (v, w') \<Longrightarrow> fetch (heap w') v = Some ob"
  by (auto simp add: alloc_def fetch_def)

lemma own_props_append: "allocated h v \<Longrightarrow> own_props (h @ ext) v = own_props h v"
  by (cases v) (auto simp add: own_props_def allocated_def fetch_def nth_append)

section \<open>The state hook\<close>

text \<open>
  C5, as the code has it. The state hook returns the slot at the cursor when the slot holds
  a value other than \<open>null\<close> and \<open>undefined\<close>. It returns \<open>initialValue\<close> when the slot was
  written with \<open>null\<close> or \<open>undefined\<close>, and when the cursor is past every slot written so far.
\<close>

theorem useState_current_value:
  "fst (fst (useState initialValue (w\<lparr>hooks := array_set hs i v, index := i\<rparr>)))
     = (if v = Null \<or> v = Undefined then initialValue else v)
   \<and> fst (fst (useState initialValue (w\<lparr>hooks := hs, index := length hs + k\<rparr>))) = initialValue"
proof
  show "fst (fst (useState initialValue (w\<lparr>hooks := array_set hs i v, index := i\<rparr>)))
     = (if v = Null \<or> v = Undefined then initialValue else v)"
    by (auto simp add: useState_def Let_def array_get_set nullish_def)
  show "fst (fst (useState initialValue (w\<lparr>hooks := hs, index := length hs + k\<rparr>))) = initialValue"
    by (simp add: useState_def Let_def array_get_def nullish_def)
qed

text \<open>
  C5 as stated fails: slot 0 is written with \<open>null\<close>, and the state hook called with
  \<open>initialValue = 0\<close> at cursor 0 returns \<open>0\<close>, not the \<open>null\<close> that the slot holds.
\<close>

theorem useState_null_slot_counterexample:
  "array_get (hooks (start\<lparr>hooks := array_set [] 0 Null\<rparr>)) 0 = Null
   \<and> index (start\<lparr>hooks := array_set [] 0 Null\<rparr>) = 0
   \<and> fst (fst (useState (Number (Finite 0)) (start\<lparr>hooks := array_set [] 0 Null\<rparr>)))
       = Number (Finite 0)"
  by (simp add: useState_def Let_def array_get_def array_set_def nullish_def start_def init_def)

text \<open>
  C3. A setter call with a value that is same-value-equal to what its slot holds returns
  the state as it was: the slot is not written, the cursor is not reset, \<open>render\<close> is not
  called. \<open>NaN\<close> is equal to itself and \<open>+0\<close> is not equal to \<open>-0\<close>. The mounted counter,
  its setter called with 1, 1 and 2, enters its component function twice more and displays 2.
\<close>

theorem setState_same_value_noop:
  "(object_is (array_get (hooks w) currIndex) newVal \<longrightarrow> setState F n currIndex newVal w = Inr w)
   \<and> object_is (Number NaN) (Number NaN)
   \<and> \<not> object_is (Number (Finite 0)) (Number NegZero)
   \<and> \<not> object_is (Number NegZero) (Number (Finite 0))
   \<and> (case counter_mounted of
         Inl e \<Rightarrow> False
       | Inr w0 \<Rightarrow>
           (case setter_calls counter_app 3 0
                   [Number (Finite 1), Number (Finite 1), Number (Finite 2)] w0 of
              Inl e \<Rightarrow> False
            | Inr w3 \<Rightarrow> renders w3 = renders w0 + 2 \<and> display w3 0 = displays (Number (Finite 2))))"
proof -
  have general: "object_is (array_get (hooks w) currIndex) newVal
      \<longrightarrow> setState F n currIndex newVal w = Inr w"
    by (simp add: setState_def)
  have numbers: "object_is (Number NaN) (Number NaN)
      \<and> \<not> object_is (Number (Finite 0)) (Number NegZero)
      \<and> \<not> object_is (Number NegZero) (Number (Finite 0))"
    by (simp add: object_is_def)
  have scenario: "(case counter_mounted of
         Inl e \<Rightarrow> False
       | Inr w0 \<Rightarrow>
           (case setter_calls counter_app 3 0
                   [Number (Finite 1), Number (Finite 1), Number (Finite 2)] w0 of
              Inl e \<Rightarrow> False
            | Inr w3 \<Rightarrow> renders w3 = renders w0 + 2 \<and> display w3 0 = displays (Number (Finite 2))))"
    by code_simp
  from general numbers scenario show ?thesis by blast
qed

theorem setState_same_value_noop_witness:
  "object_is (array_get (hooks (start\<lparr>hooks := [Number NaN]\<rparr>)) 0) (Number NaN)
   \<and> setState counter_app 3 0 (Number NaN) (start\<lparr>hooks := [Number NaN]\<rparr>)
       = Inr (start\<lparr>hooks := [Number NaN]\<rparr>)"
  using setState_same_value_noop [of "start\<lparr>hooks := [Number NaN]\<rparr>" 0 "Number NaN" counter_app 3]
  by (simp add: object_is_def array_get_def)

section \<open>The display projector\<close>

text \<open>
  C6 on the code. For \<open>null\<close>, \<open>createDom\<close> returns an empty \<open>div\<close> element and leaves the state
  as it was. For \<open>undefined\<close> it fails with a \<open>TypeError\<close>: the read \<open>fiber.type\<close> comes before
  the reads \<open>fiber?.type\<close> and \<open>fiber?.props\<close>. So the render of a component that returns
  \<open>null\<close> mounts an empty \<open>div\<close>, and the render of a component that returns nothing fails.
\<close>

theorem createDom_null_and_undefined:
  "createDom F (Suc n) Null w = Inr (DomNode (ElementNode (Str ''div'')) [] [] [], w)
   \<and> createDom F (Suc n) Undefined w = Inl TypeError
   \<and> (case createElement (Function 0) Null [] start of
         (app, w0) \<Rightarrow>
           (case render (returning Undefined) 3 app (DomRef 0) w0 of
              Inl e \<Rightarrow> e = TypeError
            | Inr w1 \<Rightarrow> False)
           \<and> (case render (returning Null) 3 app (DomRef 0) w0 of
                 Inl e \<Rightarrow> False
               | Inr w1 \<Rightarrow> display w1 0 = [DomNode (ElementNode (Str ''div'')) [] [] []]))"
proof -
  have direct: "createDom F (Suc n) Null w = Inr (DomNode (ElementNode (Str ''div'')) [] [] [], w)
      \<and> createDom F (Suc n) Undefined w = Inl TypeError"
    by (simp add: createDom_body_def document_createElement_def get_field_def nullish_def)
  have rendered: "(case createElement (Function 0) Null [] start of
         (app, w0) \<Rightarrow>
           (case render (returning Undefined) 3 app (DomRef 0) w0 of
              Inl e \<Rightarrow> e = TypeError
            | Inr w1 \<Rightarrow> False)
           \<and> (case render (returning Null) 3 app (DomRef 0) w0 of
                 Inl e \<Rightarrow> False
               | Inr w1 \<Rightarrow> display w1 0 = [DomNode (ElementNode (Str ''div'')) [] [] []]))"
    by code_simp
  from direct rendered show ?thesis by simp
qed

text \<open>
  C8, as the code has it. The host calls of \<open>updateDom\<close> are the four phases one after the
  other: the listeners to remove, the properties to clear, the properties to apply, the
  listeners to attach; and the node it leaves is the node after these calls in this order.
  For the code a name is absent from the next set when the set neither has nor inherits it,
  and a property is new or changed when the two sets are not identical at its name. For
  regular property sets this is the plain reading: absent is having no property of the name,
  new or changed is having none in the other set or one with another value.
\<close>

theorem updateDom_four_phases:
  "updateDom_calls prev next =
     remove_listeners (nowhere_in next) (not_identical prev next) prev
     @ clear_properties (nowhere_in next) prev
     @ apply_properties (not_identical prev next) next
     @ attach_listeners (not_identical prev next) next
   \<and> updateDom dnode prev next =
       foldl perform (foldl perform (foldl perform (foldl perform dnode
         (remove_listeners (nowhere_in next) (not_identical prev next) prev))
         (clear_properties (nowhere_in next) prev))
         (apply_properties (not_identical prev next) next))
         (attach_listeners (not_identical prev next) next)
   \<and> (regular prev \<and> regular next \<longrightarrow>
        updateDom_calls prev next =
          remove_listeners (absent_from next) (new_or_changed prev next) prev
          @ clear_properties (absent_from next) prev
          @ apply_properties (new_or_changed prev next) next
          @ attach_listeners (new_or_changed prev next) next)"
proof -
  have calls: "updateDom_calls prev next =
     remove_listeners (nowhere_in next) (not_identical prev next) prev
     @ clear_properties (nowhere_in next) prev
     @ apply_properties (not_identical prev next) next
     @ attach_listeners (not_identical prev next) next"
    unfolding updateDom_calls_def remove_listeners_def clear_properties_def
      apply_properties_def attach_listeners_def comprehension_filter
    by (simp add: isGone_def not_has_key [abs_def] isNew_not_identical [abs_def])
  have plain: "remove_listeners (nowhere_in next) (not_identical prev next) prev
     @ clear_properties (nowhere_in next) prev
     @ apply_properties (not_identical prev next) next
     @ attach_listeners (not_identical prev next) next
     = remove_listeners (absent_from next) (new_or_changed prev next) prev
       @ clear_properties (absent_from next) prev
       @ apply_properties (new_or_changed prev next) next
       @ attach_listeners (new_or_changed prev next) next"
    if "regular prev" and "regular next"
    unfolding remove_listeners_def clear_properties_def apply_properties_def
      attach_listeners_def comprehension_filter
    using regular_absent [OF that(1)] regular_changed_prev [OF that]
      regular_changed_next [OF that]
    by (auto intro!: arg_cong2 [of _ _ _ _ "(@)"] arg_cong [of _ _ "map _"] filter_cong)
  show ?thesis
    unfolding updateDom_def using calls plain by simp
qed

theorem updateDom_four_phases_witness:
  "regular props_before \<and> regular props_after
   \<and> updateDom_calls props_before props_after
     = [RemoveEventListener ''click'' (Function 1), SetProperty ''title'' (Str []),
        SetProperty ''id'' (Str ''b''), SetProperty ''hidden'' (Boolean False),
        AddEventListener ''click'' (Function 2), AddEventListener ''keydown'' (Function 4)]"
proof -
  have reg: "regular props_before \<and> regular props_after"
    by code_simp
  have phases: "remove_listeners (absent_from props_after)
          (new_or_changed props_before props_after) props_before
        @ clear_properties (absent_from props_after) props_before
        @ apply_properties (new_or_changed props_before props_after) props_after
        @ attach_listeners (new_or_changed props_before props_after) props_after
     = [RemoveEventListener ''click'' (Function 1), SetProperty ''title'' (Str []),
        SetProperty ''id'' (Str ''b''), SetProperty ''hidden'' (Boolean False),
        AddEventListener ''click'' (Function 2), AddEventListener ''keydown'' (Function 4)]"
    by code_simp
  from updateDom_four_phases [of props_before props_after] reg
  have "updateDom_calls props_before props_after
     = remove_listeners (absent_from props_after)
          (new_or_changed props_before props_after) props_before
        @ clear_properties (absent_from props_after) props_before
        @ apply_properties (new_or_changed props_before props_after) props_after
        @ attach_listeners (new_or_changed props_before props_after) props_after"
    by blast
  with phases reg show ?thesis by simp
qed

text \<open>
  C8 as stated fails in three places. The next set has the new property \<open>title\<close> with the
  value \<open>undefined\<close>: the third phase is to apply it, and \<open>updateDom\<close> makes no call. The
  previous set has the property \<open>toString\<close> and the next set has no property: the second phase
  is to clear it, and \<open>updateDom\<close> makes no call, since every plain object inherits that name.
  Both sets have the property \<open>value\<close> with the value \<open>NaN\<close>: it is neither new nor changed, and
  \<open>updateDom\<close> applies it.
\<close>

theorem updateDom_undefined_property_counterexample:
  "apply_properties (new_or_changed [] [(''title'', Undefined)]) [(''title'', Undefined)]
     = [SetProperty ''title'' Undefined]
   \<and> updateDom_calls [] [(''title'', Undefined)] = []
   \<and> clear_properties (absent_from []) [(''toString'', Str ''x'')]
     = [SetProperty ''toString'' (Str [])]
   \<and> updateDom_calls [(''toString'', Str ''x'')] [] = []
   \<and> apply_properties (new_or_changed [(''value'', Number NaN)] [(''value'', Number NaN)])
       [(''value'', Number NaN)] = []
   \<and> updateDom_calls [(''value'', Number NaN)] [(''value'', Number NaN)]
     = [SetProperty ''value'' (Number NaN)]"
  by code_simp

section \<open>The effect hook\<close>

text \<open>
  C1, as the code has it. With no previous list in the slot at the cursor (the slot is
  \<open>undefined\<close>, as on the first render) the callback runs, and the list is stored after it.
  With a previous list \<open>d0\<close> in the slot and the new list \<open>d1\<close>, the callback runs if and only
  if for some position \<open>i\<close> of \<open>d1\<close> the entry \<open>d1[i]\<close> is not same-value-equal to \<open>d0[i]\<close>, which
  is \<open>undefined\<close> past the end of \<open>d0\<close>; the lengths are not compared.
\<close>

theorem useEffect_dependency_gating:
  "(array_get (hooks w) (index w) = Undefined \<longrightarrow>
      useEffect F callback depArr w =
        (case call F callback [] w of
           Inl e \<Rightarrow> Inl e
         | Inr (returned, w1) \<Rightarrow>
             Inr (w1\<lparr>hooks := array_set (hooks w1) (index w1) depArr, index := index w1 + 1\<rparr>)))
   \<and> (fetch (heap w) (array_get (hooks w) (index w)) = Some (ArrayObject d0)
        \<and> fetch (heap w) depArr = Some (ArrayObject d1) \<longrightarrow>
      useEffect F callback depArr w =
        (if \<exists>i<length d1. \<not> object_is (d1 ! i) (array_get d0 i)
         then (case call F callback [] w of
                 Inl e \<Rightarrow> Inl e
               | Inr (returned, w1) \<Rightarrow>
                   Inr (w1\<lparr>hooks := array_set (hooks w1) (index w1) depArr,
                           index := index w1 + 1\<rparr>))
         else Inr (w\<lparr>hooks := array_set (hooks w) (index w) depArr, index := index w + 1\<rparr>)))"
  using useEffect_first [of w F callback depArr] useEffect_gate [of w d0 depArr d1 F callback]
  by simp

theorem useEffect_dependency_gating_witness:
  "fetch (heap (two_lists\<lparr>hooks := [Object 1]\<rparr>))
       (array_get (hooks (two_lists\<lparr>hooks := [Object 1]\<rparr>)) (index (two_lists\<lparr>hooks := [Object 1]\<rparr>)))
     = Some (ArrayObject [Number (Finite 1)])
   \<and> fetch (heap (two_lists\<lparr>hooks := [Object 1]\<rparr>)) (Object 0)
     = Some (ArrayObject [Number (Finite 1), Number (Finite 2)])
   \<and> useEffect callbacks (Function 1) (Object 0) (two_lists\<lparr>hooks := [Object 1]\<rparr>)
     = Inr (two_lists\<lparr>hooks := [Object 0], index := 1, effects := 1\<rparr>)"
proof -
  have fetched: "fetch (heap (two_lists\<lparr>hooks := [Object 1]\<rparr>))
       (array_get (hooks (two_lists\<lparr>hooks := [Object 1]\<rparr>)) (index (two_lists\<lparr>hooks := [Object 1]\<rparr>)))
     = Some (ArrayObject [Number (Finite 1)])
   \<and> fetch (heap (two_lists\<lparr>hooks := [Object 1]\<rparr>)) (Object 0)
     = Some (ArrayObject [Number (Finite 1), Number (Finite 2)])"
    by (simp add: two_lists_def start_def init_def fetch_def array_get_def)
  have differs: "\<exists>i<length [Number (Finite 1), Number (Finite 2)].
      \<not> object_is ([Number (Finite 1), Number (Finite 2)] ! i) (array_get [Number (Finite 1)] i)"
    by (rule exI [of _ 1]) (simp add: object_is_def array_get_def)
  from useEffect_dependency_gating [of "two_lists\<lparr>hooks := [Object 1]\<rparr>" callbacks "Function 1"
      "Object 0" "[Number (Finite 1)]" "[Number (Finite 1), Number (Finite 2)]"] fetched differs
  have "useEffect callbacks (Function 1) (Object 0) (two_lists\<lparr>hooks := [Object 1]\<rparr>) =
        (case call callbacks (Function 1) [] (two_lists\<lparr>hooks := [Object 1]\<rparr>) of
           Inl e \<Rightarrow> Inl e
         | Inr (returned, w1) \<Rightarrow>
             Inr (w1\<lparr>hooks := array_set (hooks w1) (index w1) (Object 0), index := index w1 + 1\<rparr>))"
    by simp
  then have "useEffect callbacks (Function 1) (Object 0) (two_lists\<lparr>hooks := [Object 1]\<rparr>)
     = Inr (two_lists\<lparr>hooks := [Object 0], index := 1, effects := 1\<rparr>)"
    by (simp add: call_def callbacks_def two_lists_def start_def init_def array_set_def
        probed.defs)
  with fetched show ?thesis by simp
qed

text \<open>
  C1 as stated fails where only the lengths differ. The first render passes \<open>[1, 2]\<close> to an
  empty store and the callback runs; the second render passes \<open>[1]\<close> at the same position,
  and the callback does not run again.
\<close>

theorem useEffect_shorter_list_counterexample:
  "length [Number (Finite 1), Number (Finite 2)] \<noteq> length [Number (Finite 1)]
   \<and> (case useEffect callbacks (Function 1) (Object 0) two_lists of
         Inl e \<Rightarrow> False
       | Inr w1 \<Rightarrow>
           effects two_lists = 0 \<and> effects w1 = 1
           \<and> fetch (heap w1) (array_get (hooks w1) 0)
               = Some (ArrayObject [Number (Finite 1), Number (Finite 2)])
           \<and> fetch (heap w1) (Object 1) = Some (ArrayObject [Number (Finite 1)])
           \<and> (case useEffect callbacks (Function 1) (Object 1) (w1\<lparr>index := 0\<rparr>) of
                 Inl e \<Rightarrow> False
               | Inr w2 \<Rightarrow> effects w2 = 1))"
  by code_simp






section \<open>The node builder\<close>

lemma is_text_node_append: "is_text_node h v child \<Longrightarrow> is_text_node (h @ ext) v child"
  by (auto simp add: is_text_node_def Let_def fetch_append get_field_opt_append)

lemma text_node_spec:
  assumes "text_node child w = (v, w')"
  shows "(\<exists>ext. heap w' = heap w @ ext) \<and> is_text_node (heap w') v child"
proof -
  obtain c w1 where a1: "alloc (ArrayObject []) w = (c, w1)" by (cases "alloc (ArrayObject []) w")
  obtain p w2 where a2: "alloc (PlainObject [(''nodeValue'', child), (''children'', c)]) w1 = (p, w2)"
    by (cases "alloc (PlainObject [(''nodeValue'', child), (''children'', c)]) w1")
  from assms a1 a2 have a3: "alloc (PlainObject [(''type'', Str ''TEXT_NODE''), (''props'', p)]) w2 = (v, w')"
    by (simp add: text_node_def)
  have h': "heap w' = heap w @ [ArrayObject [], PlainObject [(''nodeValue'', child), (''children'', c)],
      PlainObject [(''type'', Str ''TEXT_NODE''), (''props'', p)]]"
    by (simp add: alloc_heap [OF a1] alloc_heap [OF a2] alloc_heap [OF a3])
  have fv: "fetch (heap w') v = Some (PlainObject [(''type'', Str ''TEXT_NODE''), (''props'', p)])"
    by (rule alloc_fetched [OF a3])
  have fp: "fetch (heap w') p = Some (PlainObject [(''nodeValue'', child), (''children'', c)])"
    by (simp add: alloc_heap [OF a3] fetch_append [OF alloc_fetched [OF a2]])
  have fc: "fetch (heap w') c = Some (ArrayObject [])"
    by (simp add: alloc_heap [OF a3] alloc_heap [OF a2] fetch_append [OF alloc_fetched [OF a1]])
  have "is_text_node (heap w') v child"
    using fv fp fc by (simp add: is_text_node_def Let_def get_field_opt_fetched lookup_def)
  with h' show ?thesis by blast
qed

lemma normalize_spec:
  "normalize children w = (cs, w') \<Longrightarrow>
     (\<exists>ext. heap w' = heap w @ ext) \<and> length cs = length children
     \<and> (\<forall>i<length children.
           if typeof (children ! i) = ''object'' then cs ! i = children ! i
           else is_text_node (heap w') (cs ! i) (children ! i))"
proof (induction children arbitrary: w cs w')
  case Nil
  then show ?case by simp
next
  case (Cons child children)
  obtain c w1 where first:
    "(if typeof child = ''object'' then (child, w) else text_node child w) = (c, w1)"
    by (cases "if typeof child = ''object'' then (child, w) else text_node child w")
  obtain cs' w2 where rest: "normalize children w1 = (cs', w2)"
    by (cases "normalize children w1")
  from Cons.prems first rest have res: "cs = c # cs'" "w' = w2" by simp_all
  from Cons.IH [OF rest] obtain ext2 where
    ext2: "heap w2 = heap w1 @ ext2" and len: "length cs' = length children"
    and tail: "\<forall>i<length children.
           if typeof (children ! i) = ''object'' then cs' ! i = children ! i
           else is_text_node (heap w2) (cs' ! i) (children ! i)"
    by blast
  have head: "(\<exists>ext. heap w1 = heap w @ ext)
      \<and> (if typeof child = ''object'' then c = child else is_text_node (heap w1) c child)"
  proof (cases "typeof child = ''object''")
    case True
    with first show ?thesis by simp
  next
    case False
    with first have "text_node child w = (c, w1)" by simp
    from text_node_spec [OF this] False show ?thesis by simp
  qed
  then obtain ext1 where ext1: "heap w1 = heap w @ ext1" by blast
  have all: "\<forall>i<length (child # children).
           if typeof ((child # children) ! i) = ''object'' then cs ! i = (child # children) ! i
           else is_text_node (heap w') (cs ! i) ((child # children) ! i)"
  proof (intro allI impI)
    fix i assume "i < length (child # children)"
    then show "if typeof ((child # children) ! i) = ''object'' then cs ! i = (child # children) ! i
           else is_text_node (heap w') (cs ! i) ((child # children) ! i)"
      using head tail ext2 unfolding res by (cases i) (auto simp add: is_text_node_append)
  qed
  have grown: "\<exists>ext. heap w' = heap w @ ext"
    using ext1 ext2 res by simp
  have same_length: "length cs = length (child # children)"
    using len res by simp
  from grown same_length all show ?case by blast
qed

lemma lookup_assign: "lookup (assign ps k v) k' = (if k' = k then v else lookup ps k')"
  by (induction ps) (auto simp add: lookup_def)

lemma createElement_spec:
  assumes "createElement ty props children w = (node, w')"
  shows "(\<exists>ext. heap w' = heap w @ ext)
     \<and> get_field_opt (heap w') node ''type'' = ty
     \<and> is_array (heap w') (get_field_opt (heap w') (get_field_opt (heap w') node ''props'') ''children'')
     \<and> length (children_of (heap w') node) = length children
     \<and> (\<forall>i<length children.
           if typeof (children ! i) = ''object'' then children_of (heap w') node ! i = children ! i
           else is_text_node (heap w') (children_of (heap w') node ! i) (children ! i))
     \<and> (\<forall>name. allocated (heap w) props \<and> name \<noteq> ''children'' \<longrightarrow>
           lookup (own_props (heap w') (get_field_opt (heap w') node ''props'')) name
             = (if nullish props then Undefined else lookup (own_props (heap w) props) name))"
proof -
  obtain cs w1 where n: "normalize children w = (cs, w1)" by (cases "normalize children w")
  obtain arr w2 where a1: "alloc (ArrayObject cs) w1 = (arr, w2)" by (cases "alloc (ArrayObject cs) w1")
  define ps where "ps = assign (if nullish props then [] else own_props (heap w2) props) ''children'' arr"
  obtain p w3 where a2: "alloc (PlainObject ps) w2 = (p, w3)" by (cases "alloc (PlainObject ps) w2")
  from assms n a1 a2 have a3: "alloc (PlainObject [(''type'', ty), (''props'', p)]) w3 = (node, w')"
    by (simp add: createElement_def ps_def)
  from normalize_spec [OF n] obtain ext where
    ext: "heap w1 = heap w @ ext" and len: "length cs = length children"
    and each: "\<forall>i<length children.
           if typeof (children ! i) = ''object'' then cs ! i = children ! i
           else is_text_node (heap w1) (cs ! i) (children ! i)"
    by blast
  have h': "heap w' = heap w1 @ [ArrayObject cs, PlainObject ps, PlainObject [(''type'', ty), (''props'', p)]]"
    by (simp add: alloc_heap [OF a1] alloc_heap [OF a2] alloc_heap [OF a3])
  have fn: "fetch (heap w') node = Some (PlainObject [(''type'', ty), (''props'', p)])"
    by (rule alloc_fetched [OF a3])
  have fp: "fetch (heap w') p = Some (PlainObject ps)"
    by (simp add: alloc_heap [OF a3] fetch_append [OF alloc_fetched [OF a2]])
  have fa: "fetch (heap w') arr = Some (ArrayObject cs)"
    by (simp add: alloc_heap [OF a3] alloc_heap [OF a2] fetch_append [OF alloc_fetched [OF a1]])
  have props_of: "get_field_opt (heap w') node ''props'' = p"
    using fn by (simp add: get_field_opt_fetched lookup_def)
  have kids: "get_field_opt (heap w') p ''children'' = arr"
    using fp by (simp add: get_field_opt_fetched ps_def lookup_assign)
  have ty_of: "get_field_opt (heap w') node ''type'' = ty"
    using fn by (simp add: get_field_opt_fetched lookup_def)
  have co: "children_of (heap w') node = cs"
    using fa by (simp add: children_of_def props_of kids elements_def)
  have arr_is: "is_array (heap w') (get_field_opt (heap w') (get_field_opt (heap w') node ''props'') ''children'')"
    using fa by (simp add: props_of kids is_array_def)
  have each': "\<forall>i<length children.
           if typeof (children ! i) = ''object'' then cs ! i = children ! i
           else is_text_node (heap w') (cs ! i) (children ! i)"
    using each h' by (auto simp add: is_text_node_append)
  have own_old: "allocated (heap w) props \<Longrightarrow> own_props (heap w2) props = own_props (heap w) props"
    using own_props_append [of "heap w" props "ext @ [ArrayObject cs]"]
    by (simp add: alloc_heap [OF a1] ext)
  have own_new: "own_props (heap w') p = ps"
    using fp by (cases p) (auto simp add: own_props_def fetch_def)
  have kept: "\<forall>name. allocated (heap w) props \<and> name \<noteq> ''children'' \<longrightarrow>
           lookup (own_props (heap w') (get_field_opt (heap w') node ''props'')) name
             = (if nullish props then Undefined else lookup (own_props (heap w) props) name)"
    using own_old by (auto simp add: props_of own_new ps_def lookup_assign) (simp add: lookup_def)
  have grown: "\<exists>ext. heap w' = heap w @ ext"
    using ext h' by simp
  have same_length: "length (children_of (heap w') node) = length children"
    by (simp add: co len)
  have wrapped: "\<forall>i<length children.
           if typeof (children ! i) = ''object'' then children_of (heap w') node ! i = children ! i
           else is_text_node (heap w') (children_of (heap w') node ! i) (children ! i)"
    using each' by (simp add: co)
  show ?thesis
    by (intro conjI grown ty_of arr_is same_length wrapped kept)
qed

text \<open>
  C9, as the code has it. The node that \<open>createElement\<close> returns has the kind it was given.
  Its children array has one entry per child, in order: a child whose \<open>typeof\<close> is \<open>object\<close>
  (a node, an array, and also \<open>null\<close>) is the entry itself,
  and every other child is wrapped in a text node whose \<open>nodeValue\<close> is the child. The
  properties other than \<open>children\<close> are those of the property argument, and the heap only
  grows. \<^verbatim>\<open>createElement('div', {className: 'x'}, 'hello')\<close> returns a \<open>div\<close> node with
  \<open>className\<close> \<open>x\<close> whose children are exactly one text node with \<open>nodeValue\<close> \<open>hello\<close>.
\<close>

theorem createElement_wraps_text:
  "(createElement ty props children w = (node, w') \<longrightarrow>
     (\<exists>ext. heap w' = heap w @ ext)
     \<and> get_field_opt (heap w') node ''type'' = ty
     \<and> is_array (heap w') (get_field_opt (heap w') (get_field_opt (heap w') node ''props'') ''children'')
     \<and> length (children_of (heap w') node) = length children
     \<and> (\<forall>i<length children.
           if typeof (children ! i) = ''object'' then children_of (heap w') node ! i = children ! i
           else is_text_node (heap w') (children_of (heap w') node ! i) (children ! i))
     \<and> (\<forall>name. allocated (heap w) props \<and> name \<noteq> ''children'' \<longrightarrow>
           lookup (own_props (heap w') (get_field_opt (heap w') node ''props'')) name
             = (if nullish props then Undefined else lookup (own_props (heap w) props) name)))
   \<and> (case createElement (Str ''div'') (Object 0) [Str ''hello''] class_x of
         (node, w') \<Rightarrow>
           get_field_opt (heap w') node ''type'' = Str ''div''
           \<and> get_field_opt (heap w') (get_field_opt (heap w') node ''props'') ''className'' = Str ''x''
           \<and> length (children_of (heap w') node) = 1
           \<and> is_text_node (heap w') (children_of (heap w') node ! 0) (Str ''hello''))"
proof -
  have scenario: "(case createElement (Str ''div'') (Object 0) [Str ''hello''] class_x of
         (node, w') \<Rightarrow>
           get_field_opt (heap w') node ''type'' = Str ''div''
           \<and> get_field_opt (heap w') (get_field_opt (heap w') node ''props'') ''className'' = Str ''x''
           \<and> length (children_of (heap w') node) = 1
           \<and> is_text_node (heap w') (children_of (heap w') node ! 0) (Str ''hello''))"
    by code_simp
  from createElement_spec [of ty props children w node w'] scenario show ?thesis by blast
qed

theorem createElement_wraps_text_witness:
  "is_text_node (heap (snd (createElement (Str ''div'') (Object 0) [Str ''hello''] class_x)))
     (children_of (heap (snd (createElement (Str ''div'') (Object 0) [Str ''hello''] class_x)))
        (fst (createElement (Str ''div'') (Object 0) [Str ''hello''] class_x)) ! 0)
     (Str ''hello'')"
  using createElement_wraps_text
    [of "Str ''div''" "Object 0" "[Str ''hello'']" class_x
        "fst (createElement (Str ''div'') (Object 0) [Str ''hello''] class_x)"
        "snd (createElement (Str ''div'') (Object 0) [Str ''hello''] class_x)"]
  by simp

text \<open>
  C9 as stated fails for the child \<open>null\<close>, which is no structured node and no object:
  \<^verbatim>\<open>createElement('div', null, null)\<close> returns a node whose only child is \<open>null\<close> itself and
  no text node. The render of that node fails, since the reconciler reads the \<open>type\<close> of
  every child.
\<close>

theorem createElement_null_child_counterexample:
  "(case createElement (Str ''div'') Null [Null] start of
      (node, w') \<Rightarrow>
        children_of (heap w') node = [Null]
        \<and> \<not> is_text_node (heap w') (children_of (heap w') node ! 0) Null
        \<and> (case render callbacks 3 node (DomRef 0) w' of
              Inl e \<Rightarrow> e = TypeError
            | Inr w1 \<Rightarrow> False))"
  by code_simp

section \<open>What an explicit render does to the hook store\<close>

lemma same_store_refl: "same_store w w"
  by (simp add: same_store_def)

lemma same_store_trans: "same_store w w1 \<Longrightarrow> same_store w1 w2 \<Longrightarrow> same_store w w2"
  by (simp add: same_store_def)

lemma call_same_store:
  "keeps_store F \<Longrightarrow> call F f args w = Inr (r, w') \<Longrightarrow> same_store w w'"
  by (cases f) (auto simp add: call_def keeps_store_def)

lemma index_set_same_store: "index_set base i v w = Inr w' \<Longrightarrow> same_store w w'"
  by (cases base) (auto simp add: index_set_def same_store_def split: if_splits obj.splits)

lemma alloc_same_store: "alloc ob w = (v, w') \<Longrightarrow> same_store w w'"
  by (auto simp add: alloc_def same_store_def)

lemma map_reconcile_same_store:
  assumes self: "\<And>v w r w'. self v w = Inr (r, w') \<Longrightarrow> same_store w w'"
  shows "map_reconcile self arr is acc w = Inr (rs, w') \<Longrightarrow> same_store w w'"
proof (induction "is" arbitrary: acc w)
  case Nil
  then show ?case by (simp add: same_store_refl)
next
  case (Cons i "is")
  then show ?case
    by (auto split: if_splits sum.splits prod.splits
        intro: same_store_trans [OF self])
qed

lemma replace_child_same_store:
  assumes self: "\<And>v w r w'. self v w = Inr (r, w') \<Longrightarrow> same_store w w'"
  shows "replace_child self c i w = Inr w' \<Longrightarrow> same_store w w'"
  unfolding replace_child_def
  by (auto split: sum.splits if_splits prod.splits
      intro: same_store_trans [OF self index_set_same_store])

lemma forEach_reconcile_same_store:
  assumes self: "\<And>v w r w'. self v w = Inr (r, w') \<Longrightarrow> same_store w w'"
  shows "forEach_reconcile self c arr is w = Inr w' \<Longrightarrow> same_store w w'"
proof (induction "is" arbitrary: w)
  case Nil
  then show ?case by (simp add: same_store_refl)
next
  case (Cons i "is")
  then show ?case
    by (auto split: if_splits sum.splits
        intro: same_store_trans [OF replace_child_same_store [OF self]])
qed

lemma reconcile_children_same_store:
  assumes self: "\<And>v w r w'. self v w = Inr (r, w') \<Longrightarrow> same_store w w'"
  shows "reconcile_children self c w = Inr w' \<Longrightarrow> same_store w w'"
  unfolding reconcile_children_def Let_def
  by (auto split: if_splits intro: forEach_reconcile_same_store [OF self] same_store_refl)

lemma resolve_same_store:
  "keeps_store F \<Longrightarrow> resolve F ty c w = Inr (r, w') \<Longrightarrow> same_store w w'"
  unfolding resolve_def
  by (auto split: if_splits intro: call_same_store same_store_refl)

lemma reconcile_body_same_store:
  assumes F: "keeps_store F"
    and self: "\<And>v w r w'. self v w = Inr (r, w') \<Longrightarrow> same_store w w'"
  shows "reconcile_body F self v w = Inr (r, w') \<Longrightarrow> same_store w w'"
  unfolding reconcile_body_def
  by (auto split: sum.splits if_splits prod.splits
      intro: same_store_trans [OF map_reconcile_same_store [OF self] alloc_same_store]
        same_store_trans [OF resolve_same_store [OF F] reconcile_children_same_store [OF self]])

lemma reconcile_same_store:
  "keeps_store F \<Longrightarrow> reconcile F n v w = Inr (r, w') \<Longrightarrow> same_store w w'"
proof (induction n arbitrary: v w r w')
  case 0
  then show ?case by simp
next
  case (Suc n)
  from Suc.prems(2) have "reconcile_body F (reconcile F n) v w = Inr (r, w')" by simp
  then show ?case
    using reconcile_body_same_store [OF Suc.prems(1), of "reconcile F n"] Suc.IH [OF Suc.prems(1)]
    by blast
qed

lemma append_created_rel:
  assumes self: "\<And>v w d w'. self v w = Inr (d, w') \<Longrightarrow> R w w'"
  shows "append_created self c d w = Inr (d', w') \<Longrightarrow> R w w'"
  unfolding append_created_def
  by (auto split: sum.splits prod.splits intro: self)

lemma forEach_child_rel:
  assumes refl: "\<And>w. R w w" and trans: "\<And>a b c. R a b \<Longrightarrow> R b c \<Longrightarrow> R a c"
    and self: "\<And>v w d w'. self v w = Inr (d, w') \<Longrightarrow> R w w'"
  shows "forEach_child self arr is d w = Inr (d', w') \<Longrightarrow> R w w'"
proof (induction "is" arbitrary: d w)
  case Nil
  then show ?case by (simp add: refl)
next
  case (Cons i "is")
  then show ?case
    by (auto split: if_splits sum.splits prod.splits
        intro: trans [OF append_created_rel [of self R, OF self]])
qed

lemma append_element_rel:
  assumes refl: "\<And>w. R w w" and trans: "\<And>a b c. R a b \<Longrightarrow> R b c \<Longrightarrow> R a c"
    and self: "\<And>v w d w'. self v w = Inr (d, w') \<Longrightarrow> R w w'"
  shows "append_element self e d w = Inr (d', w') \<Longrightarrow> R w w'"
  unfolding append_element_def
  by (auto split: if_splits
      intro: forEach_child_rel [of R self, OF refl trans self]
        append_created_rel [of self R, OF self])

lemma forEach_element_rel:
  assumes refl: "\<And>w. R w w" and trans: "\<And>a b c. R a b \<Longrightarrow> R b c \<Longrightarrow> R a c"
    and self: "\<And>v w d w'. self v w = Inr (d, w') \<Longrightarrow> R w w'"
  shows "forEach_element self arr is d w = Inr (d', w') \<Longrightarrow> R w w'"
proof (induction "is" arbitrary: d w)
  case Nil
  then show ?case by (simp add: refl)
next
  case (Cons i "is")
  then show ?case
    by (auto split: if_splits sum.splits prod.splits
        intro: trans [OF append_element_rel [of R self, OF refl trans self]])
qed

lemma createDom_host_rel:
  assumes refl: "\<And>w. R w w" and trans: "\<And>a b c. R a b \<Longrightarrow> R b c \<Longrightarrow> R a c"
    and self: "\<And>v w d w'. self v w = Inr (d, w') \<Longrightarrow> R w w'"
  shows "createDom_host self fiber ty w = Inr (d', w') \<Longrightarrow> R w w'"
  unfolding createDom_host_def Let_def
  by (auto split: if_splits intro: forEach_element_rel [of R self, OF refl trans self] refl)

lemma createDom_body_rel:
  assumes refl: "\<And>w. R w w" and trans: "\<And>a b c. R a b \<Longrightarrow> R b c \<Longrightarrow> R a c"
    and F: "\<And>f args w r w'. F f args w = Inr (r, w') \<Longrightarrow> R w w'"
    and self: "\<And>v w d w'. self v w = Inr (d, w') \<Longrightarrow> R w w'"
  shows "createDom_body F self fiber w = Inr (d', w') \<Longrightarrow> R w w'"
proof -
  assume run: "createDom_body F self fiber w = Inr (d', w')"
  show ?thesis
  proof (cases "fiber = Null")
    case True
    with run show ?thesis by (simp add: createDom_body_def refl)
  next
    case False
    with run obtain ty where ty: "get_field (heap w) fiber ''type'' = Inr ty"
      by (auto simp add: createDom_body_def split: sum.splits)
    show ?thesis
    proof (cases "typeof ty = ''function''")
      case True
      with run False ty obtain childElement w1 where
        c: "call F ty [get_field_opt (heap w) fiber ''props''] w = Inr (childElement, w1)"
        and s: "self childElement w1 = Inr (d', w')"
        by (auto simp add: createDom_body_def split: sum.splits prod.splits)
      from c obtain k where "F k [get_field_opt (heap w) fiber ''props''] w = Inr (childElement, w1)"
        by (cases ty) (auto simp add: call_def)
      from trans [OF F [OF this] self [OF s]] show ?thesis .
    next
      case notfun: False
      with run False ty have "createDom_host self fiber ty w = Inr (d', w')"
        by (simp add: createDom_body_def)
      from createDom_host_rel [of R self fiber ty w d' w', OF refl trans self this]
      show ?thesis .
    qed
  qed
qed

lemma createDom_rel:
  assumes refl: "\<And>w. R w w" and trans: "\<And>a b c. R a b \<Longrightarrow> R b c \<Longrightarrow> R a c"
    and F: "\<And>f args w r w'. F f args w = Inr (r, w') \<Longrightarrow> R w w'"
  shows "createDom F n v w = Inr (d, w') \<Longrightarrow> R w w'"
proof (induction n arbitrary: v w d w')
  case 0
  then show ?case by simp
next
  case (Suc n)
  from Suc.prems have "createDom_body F (createDom F n) v w = Inr (d, w')" by simp
  from createDom_body_rel [of R F "createDom F n" v w d w', OF refl trans F Suc.IH this]
  show ?case .
qed

lemma createDom_same_store:
  assumes "keeps_store F" and "createDom F n v w = Inr (d, w')"
  shows "same_store w w'"
proof (rule createDom_rel [of same_store F, OF _ _ _ assms(2)])
  show "\<And>w. same_store w w" by (rule same_store_refl)
  show "\<And>a b c. same_store a b \<Longrightarrow> same_store b c \<Longrightarrow> same_store a c" by (rule same_store_trans)
  show "\<And>f args w r w'. F f args w = Inr (r, w') \<Longrightarrow> same_store w w'"
    using assms(1) by (auto simp add: keeps_store_def)
qed

lemma text_node_same_store: "text_node child w = (v, w') \<Longrightarrow> same_store w w'"
  by (auto simp add: text_node_def alloc_def same_store_def Let_def)

lemma normalize_same_store: "normalize children w = (cs, w') \<Longrightarrow> same_store w w'"
proof (induction children arbitrary: w cs w')
  case Nil
  then show ?case by (simp add: same_store_refl)
next
  case (Cons child children)
  then show ?case
    by (auto simp add: Let_def split: if_splits prod.splits
        intro: same_store_trans [OF text_node_same_store])
qed

lemma createElement_same_store:
  "createElement ty props children w = (node, w') \<Longrightarrow> same_store w w'"
  by (auto simp add: createElement_def alloc_def Let_def split: prod.splits
      dest!: normalize_same_store) (simp_all add: same_store_def)

lemma static_app_keeps_store: "keeps_store static_app"
  by (auto simp add: keeps_store_def static_app_def intro: createElement_same_store)

text \<open>
  C10, as the code has it. \<open>render\<close> writes no hook slot and does not move the cursor by
  itself: when no function of the program changes the hook store or the cursor, a call of
  \<open>render\<close> that returns leaves both as they were, and the cursor is not set to zero. The
  setter, for a changed value, sets the cursor to zero before it calls \<open>render\<close>.
\<close>

theorem render_keeps_store:
  "(keeps_store F \<and> render F n component mount w = Inr w' \<longrightarrow>
      hooks w' = hooks w \<and> index w' = index w)
   \<and> (\<not> object_is (array_get (hooks w) currIndex) newVal \<longrightarrow>
        setState F n currIndex newVal w =
          render F n Undefined Undefined
            (w\<lparr>hooks := array_set (hooks w) currIndex newVal, index := 0\<rparr>))"
proof -
  have frame: "hooks w' = hooks w \<and> index w' = index w"
    if keeps: "keeps_store F" and run: "render F n component mount w = Inr w'"
  proof -
    from run obtain r w0 rc w1 d w3 where
      w0: "w0 = w\<lparr>display := (display w)(r := remove_children (display w r))\<rparr>"
      and rec: "reconcile F n (if component = Undefined then g_component w else component) w0
          = Inr (rc, w1)"
      and dom: "createDom F n rc
          (w1\<lparr>g_hooks := True,
              g_component := (if component = Undefined then g_component w else component),
              g_root := (if mount = Undefined then g_root w else mount)\<rparr>) = Inr (d, w3)"
      and w': "w' = w3\<lparr>display := (display w3)(r := display w3 r @ [d])\<rparr>"
      by (auto simp add: render_def Let_def split: jsval.splits sum.splits prod.splits)
    from reconcile_same_store [OF keeps rec] createDom_same_store [OF keeps dom] w0 w'
    show ?thesis by (simp add: same_store_def)
  qed
  have setter: "\<not> object_is (array_get (hooks w) currIndex) newVal \<longrightarrow>
        setState F n currIndex newVal w =
          render F n Undefined Undefined
            (w\<lparr>hooks := array_set (hooks w) currIndex newVal, index := 0\<rparr>)"
    by (simp add: setState_def)
  from frame setter show ?thesis by blast
qed

theorem render_keeps_store_witness:
  "keeps_store static_app
   \<and> (\<exists>w'. render static_app 3 (fst static_root) (DomRef 0) (snd static_root) = Inr w'
          \<and> hooks w' = [Number (Finite 7)] \<and> index w' = 1)"
proof -
  have "case render static_app 3 (fst static_root) (DomRef 0) (snd static_root) of
          Inl e \<Rightarrow> False | Inr w' \<Rightarrow> True"
    by code_simp
  then obtain w' where run:
    "render static_app 3 (fst static_root) (DomRef 0) (snd static_root) = Inr w'"
    by (cases "render static_app 3 (fst static_root) (DomRef 0) (snd static_root)") auto
  have before: "hooks (snd static_root) = [Number (Finite 7)] \<and> index (snd static_root) = 1"
    by code_simp
  from render_keeps_store [of static_app 3 "fst static_root" "DomRef 0" "snd static_root" w']
    static_app_keeps_store run before
  show ?thesis by auto
qed

text \<open>
  C10 as stated fails for a component that calls hooks. The explicit render of the component
  with the effect starts from an empty hook store with the cursor at 0 and ends with two
  slots, the second written, and the cursor at 2.
\<close>

theorem render_changes_store_counterexample:
  "hooks start = [] \<and> index start = 0
   \<and> (case effect_mounted of
         Inl e \<Rightarrow> False
       | Inr w \<Rightarrow> hooks w = [Undefined, Object 3] \<and> index w = 2)"
  by code_simp

section \<open>The re-render that a setter call causes\<close>
















section \<open>What the engine does to existing nodes\<close>

lemma entries_kept_iff:
  "entries_kept h xs ys \<longleftrightarrow>
     length ys = length xs \<and> (\<forall>i<length xs. ys ! i = xs ! i \<or> \<not> string_kind h (xs ! i))"
  by (auto simp add: entries_kept_def list_all_iff)

lemma nodes_kept_iff:
  "nodes_kept h h' \<longleftrightarrow> length h \<le> length h' \<and> (\<forall>a<length h. object_kept h (h ! a) (h' ! a))"
  by (auto simp add: nodes_kept_def list_all_iff)

lemma object_kept_refl: "object_kept h ob ob"
  by (cases ob) (simp_all add: entries_kept_iff)

lemma nodes_kept_refl: "nodes_kept h h"
  by (simp add: nodes_kept_iff object_kept_refl)

lemma nodes_kept_append: "nodes_kept h (h @ ext)"
  by (simp add: nodes_kept_iff object_kept_refl nth_append)

lemma fetch_kept:
  "nodes_kept h h' \<Longrightarrow> fetch h v = Some (PlainObject ps) \<Longrightarrow> fetch h' v = Some (PlainObject ps)"
  by (cases v) (auto simp add: fetch_def nodes_kept_iff split: if_splits)

lemma fetch_kept_array:
  "nodes_kept h h' \<Longrightarrow> fetch h v = Some (ArrayObject xs) \<Longrightarrow>
     \<exists>ys. fetch h' v = Some (ArrayObject ys) \<and> entries_kept h xs ys"
proof (cases v)
  case (Object a)
  assume kept: "nodes_kept h h'" and f: "fetch h v = Some (ArrayObject xs)"
  from f Object have a: "a < length h" "h ! a = ArrayObject xs"
    by (auto simp add: fetch_def split: if_splits)
  with kept have "object_kept h (ArrayObject xs) (h' ! a)" "a < length h'"
    by (auto simp add: nodes_kept_iff)
  then show ?thesis using Object
    by (cases "h' ! a") (auto simp add: fetch_def)
qed (simp_all add: fetch_def)

lemma string_kind_fetch:
  "string_kind h v \<Longrightarrow> \<exists>ps. fetch h v = Some (PlainObject ps) \<and> typeof (lookup ps ''type'') = ''string''"
  by (auto simp add: string_kind_def get_field_opt_def split: option.splits obj.splits)

lemma string_kind_mono:
  assumes "nodes_kept h h'" and "string_kind h v"
  shows "string_kind h' v"
proof -
  from string_kind_fetch [OF assms(2)] obtain ps where
    f: "fetch h v = Some (PlainObject ps)" and t: "typeof (lookup ps ''type'') = ''string''"
    by blast
  from fetch_kept [OF assms(1) f] t show ?thesis
    by (simp add: string_kind_def get_field_opt_def)
qed

lemma entries_kept_trans:
  assumes kept: "nodes_kept h h'" and a: "entries_kept h xs ys" and b: "entries_kept h' ys zs"
  shows "entries_kept h xs zs"
  unfolding entries_kept_iff
proof (intro conjI allI impI)
  show "length zs = length xs" using a b by (simp add: entries_kept_iff)
next
  fix i assume i: "i < length xs"
  with a have 1: "ys ! i = xs ! i \<or> \<not> string_kind h (xs ! i)" by (simp add: entries_kept_iff)
  from i a b have 2: "zs ! i = ys ! i \<or> \<not> string_kind h' (ys ! i)" by (simp add: entries_kept_iff)
  from 1 2 string_kind_mono [OF kept, of "xs ! i"]
  show "zs ! i = xs ! i \<or> \<not> string_kind h (xs ! i)" by auto
qed

lemma nodes_kept_trans:
  assumes a: "nodes_kept h h'" and b: "nodes_kept h' h''"
  shows "nodes_kept h h''"
  unfolding nodes_kept_iff
proof (intro conjI allI impI)
  show "length h \<le> length h''" using a b by (simp add: nodes_kept_iff)
next
  fix a' assume lt: "a' < length h"
  with a have 1: "object_kept h (h ! a') (h' ! a')" and lt': "a' < length h'"
    by (auto simp add: nodes_kept_iff)
  from b lt' have 2: "object_kept h' (h' ! a') (h'' ! a')" by (simp add: nodes_kept_iff)
  show "object_kept h (h ! a') (h'' ! a')"
  proof (cases "h ! a'")
    case (PlainObject ps)
    with 1 2 show ?thesis by simp
  next
    case (ArrayObject xs)
    with 1 obtain ys where ys: "h' ! a' = ArrayObject ys" "entries_kept h xs ys"
      by (cases "h' ! a'") auto
    with 2 obtain zs where zs: "h'' ! a' = ArrayObject zs" "entries_kept h' ys zs"
      by (cases "h'' ! a'") auto
    from entries_kept_trans [OF a ys(2) zs(2)] ArrayObject zs(1) show ?thesis by simp
  qed
qed


lemma alloc_nodes_kept: "alloc ob w = (v, w') \<Longrightarrow> nodes_kept (heap w) (heap w')"
  by (auto simp add: alloc_def nodes_kept_append)

lemma call_nodes_kept:
  "keeps_nodes F \<Longrightarrow> call F f args w = Inr (r, w') \<Longrightarrow> nodes_kept (heap w) (heap w')"
  by (cases f) (auto simp add: call_def keeps_nodes_def)

lemma map_reconcile_nodes_kept:
  assumes self: "\<And>v w r w'. self v w = Inr (r, w') \<Longrightarrow> nodes_kept (heap w) (heap w')"
  shows "map_reconcile self arr is acc w = Inr (rs, w') \<Longrightarrow> nodes_kept (heap w) (heap w')"
proof (induction "is" arbitrary: acc w)
  case Nil
  then show ?case by (simp add: nodes_kept_refl)
next
  case (Cons i "is")
  then show ?case
    by (auto split: if_splits sum.splits prod.splits
        intro: nodes_kept_trans [OF self])
qed

lemma is_array_kept: "nodes_kept h h' \<Longrightarrow> is_array h v \<Longrightarrow> is_array h' v"
  by (auto simp add: is_array_def split: option.splits obj.splits dest: fetch_kept_array)

lemma children_link_kept:
  "nodes_kept h h' \<Longrightarrow> children_link h c arr \<Longrightarrow> children_link h' c arr"
  unfolding children_link_def by (blast intro: fetch_kept is_array_kept)

lemma get_field_fetched:
  "fetch h v = Some (PlainObject ps) \<Longrightarrow> get_field h v name = Inr (lookup ps name)"
  by (cases v) (auto simp add: get_field_def nullish_def fetch_def)

lemma get_field_opt_of_get_field:
  "get_field h v name = Inr x \<Longrightarrow> get_field_opt h v name = x"
  by (auto simp add: get_field_def get_field_opt_def split: if_splits option.splits obj.splits)

lemma replace_child_nodes_kept:
  assumes self: "\<And>v w r w'. self v w = Inr (r, w') \<Longrightarrow> nodes_kept (heap w) (heap w')"
    and link: "children_link (heap w) c arr"
    and i: "i < length (elements (heap w) arr)"
    and kind: "\<not> string_kind (heap w) (elements (heap w) arr ! i)"
    and run: "replace_child self c i w = Inr w'"
  shows "nodes_kept (heap w) (heap w')"
proof -
  from link obtain cps pps where
    fc: "fetch (heap w) c = Some (PlainObject cps)"
    and fp: "fetch (heap w) (lookup cps ''props'') = Some (PlainObject pps)"
    and ch: "lookup pps ''children'' = arr" and arr: "is_array (heap w) arr"
    by (auto simp add: children_link_def)
  from arr obtain a xs where a: "arr = Object a" "a < length (heap w)" "heap w ! a = ArrayObject xs"
    by (cases arr) (auto simp add: is_array_def fetch_def split: if_splits obj.splits)
  then have fa: "fetch (heap w) arr = Some (ArrayObject xs)" by (simp add: fetch_def)
  have el: "elements (heap w) arr = xs" using fa by (simp add: elements_def)
  from run fc fp ch a(1) obtain r w1 where
    s1: "self (index_get (heap w) arr i) w = Inr (r, w1)" and s2: "index_set arr i r w1 = Inr w'"
    by (auto simp add: replace_child_def get_field_fetched nullish_def split: sum.splits prod.splits)
  from self [OF s1] have k1: "nodes_kept (heap w) (heap w1)" .
  from fetch_kept_array [OF k1 fa] obtain ys where
    ys: "fetch (heap w1) arr = Some (ArrayObject ys)" "entries_kept (heap w) xs ys"
    by blast
  from ys(1) a(1) have a1: "a < length (heap w1)" "heap w1 ! a = ArrayObject ys"
    by (auto simp add: fetch_def split: if_splits)
  from ys(2) i el have len: "length ys = length xs" "i < length ys"
    by (simp_all add: entries_kept_iff)
  from s2 a(1) a1 len have h': "heap w' = (heap w1)[a := ArrayObject (ys[i := r])]"
    by (auto simp add: index_set_def array_set_def)
  have new: "entries_kept (heap w) xs (ys[i := r])"
    unfolding entries_kept_iff
  proof (intro conjI allI impI)
    show "length (ys[i := r]) = length xs" using len by simp
  next
    fix j assume j: "j < length xs"
    show "ys[i := r] ! j = xs ! j \<or> \<not> string_kind (heap w) (xs ! j)"
    proof (cases "j = i")
      case True
      with kind el show ?thesis by simp
    next
      case False
      with ys(2) j show ?thesis by (simp add: entries_kept_iff)
    qed
  qed
  show ?thesis
    unfolding nodes_kept_iff
  proof (intro conjI allI impI)
    show "length (heap w) \<le> length (heap w')" using k1 h' by (simp add: nodes_kept_iff)
  next
    fix b assume b: "b < length (heap w)"
    show "object_kept (heap w) (heap w ! b) (heap w' ! b)"
    proof (cases "b = a")
      case True
      with a a1 h' new show ?thesis by simp
    next
      case False
      with k1 b h' show ?thesis by (simp add: nodes_kept_iff)
    qed
  qed
qed

lemma forEach_reconcile_nodes_kept:
  assumes self: "\<And>v w r w'. self v w = Inr (r, w') \<Longrightarrow> nodes_kept (heap w) (heap w')"
  shows "children_link (heap w) c arr \<Longrightarrow> forEach_reconcile self c arr is w = Inr w'
     \<Longrightarrow> nodes_kept (heap w) (heap w')"
proof (induction "is" arbitrary: w)
  case Nil
  then show ?case by (simp add: nodes_kept_refl)
next
  case (Cons i "is")
  show ?case
  proof (cases "i < length (elements (heap w) arr)")
    case False
    with Cons show ?thesis by simp
  next
    case True
    with Cons.prems(2) obtain child_type w1 where
      ct: "get_field (heap w) (elements (heap w) arr ! i) ''type'' = Inr child_type"
      and step: "(if typeof child_type \<noteq> ''string'' then replace_child self c i w else Inr w) = Inr w1"
      and rest: "forEach_reconcile self c arr is w1 = Inr w'"
      by (auto split: sum.splits)
    have k1: "nodes_kept (heap w) (heap w1)"
    proof (cases "typeof child_type = ''string''")
      case True
      with step show ?thesis by (simp add: nodes_kept_refl)
    next
      case False
      with step have run: "replace_child self c i w = Inr w1" by simp
      from False ct have "\<not> string_kind (heap w) (elements (heap w) arr ! i)"
        by (simp add: string_kind_def get_field_opt_of_get_field)
      from replace_child_nodes_kept [OF self Cons.prems(1) True this run] show ?thesis .
    qed
    from Cons.IH [OF children_link_kept [OF k1 Cons.prems(1)] rest] k1
    show ?thesis by (blast intro: nodes_kept_trans)
  qed
qed

lemma truthy_get_field_opt:
  "truthy (get_field_opt h v name) \<Longrightarrow> \<exists>ps. fetch h v = Some (PlainObject ps)"
  by (auto simp add: get_field_opt_def split: option.splits obj.splits)

lemma reconcile_children_nodes_kept:
  assumes self: "\<And>v w r w'. self v w = Inr (r, w') \<Longrightarrow> nodes_kept (heap w) (heap w')"
    and run: "reconcile_children self c w = Inr w'"
  shows "nodes_kept (heap w) (heap w')"
proof (cases "truthy (get_field_opt (heap w) c ''props'')
    \<and> truthy (get_field_opt (heap w) (get_field_opt (heap w) c ''props'') ''children'')")
  case False
  with run show ?thesis by (auto simp add: reconcile_children_def Let_def nodes_kept_refl)
next
  case True
  define arr where "arr = get_field_opt (heap w) (get_field_opt (heap w) c ''props'') ''children''"
  from True run have arr_is: "is_array (heap w) arr"
    and loop: "forEach_reconcile self c arr [0..<length (elements (heap w) arr)] w = Inr w'"
    by (auto simp add: reconcile_children_def Let_def arr_def split: if_splits)
  from True obtain cps where fc: "fetch (heap w) c = Some (PlainObject cps)"
    by (blast dest: truthy_get_field_opt)
  then have p: "get_field_opt (heap w) c ''props'' = lookup cps ''props''"
    by (simp add: get_field_opt_fetched)
  from True obtain pps where fp: "fetch (heap w) (lookup cps ''props'') = Some (PlainObject pps)"
    unfolding p by (blast dest: truthy_get_field_opt)
  then have "arr = lookup pps ''children''"
    by (simp add: arr_def p get_field_opt_fetched)
  with fc fp arr_is have "children_link (heap w) c arr"
    by (auto simp add: children_link_def)
  from forEach_reconcile_nodes_kept [OF self this loop] show ?thesis .
qed

lemma resolve_nodes_kept:
  "keeps_nodes F \<Longrightarrow> resolve F ty c w = Inr (r, w') \<Longrightarrow> nodes_kept (heap w) (heap w')"
  unfolding resolve_def
  by (auto split: if_splits intro: call_nodes_kept nodes_kept_refl)

lemma reconcile_body_nodes_kept:
  assumes F: "keeps_nodes F"
    and self: "\<And>v w r w'. self v w = Inr (r, w') \<Longrightarrow> nodes_kept (heap w) (heap w')"
  shows "reconcile_body F self v w = Inr (r, w') \<Longrightarrow> nodes_kept (heap w) (heap w')"
  unfolding reconcile_body_def
  by (auto split: sum.splits if_splits prod.splits
      intro: nodes_kept_trans [OF map_reconcile_nodes_kept [OF self] alloc_nodes_kept]
        nodes_kept_trans [OF resolve_nodes_kept [OF F] reconcile_children_nodes_kept [OF self]])

lemma reconcile_nodes_kept:
  "keeps_nodes F \<Longrightarrow> reconcile F n v w = Inr (r, w') \<Longrightarrow> nodes_kept (heap w) (heap w')"
proof (induction n arbitrary: v w r w')
  case 0
  then show ?case by simp
next
  case (Suc n)
  from Suc.prems(2) have "reconcile_body F (reconcile F n) v w = Inr (r, w')" by simp
  then show ?case
    using reconcile_body_nodes_kept [OF Suc.prems(1), of "reconcile F n"] Suc.IH [OF Suc.prems(1)]
    by blast
qed

lemma createDom_nodes_kept:
  assumes "keeps_nodes F" and "createDom F n v w = Inr (d, w')"
  shows "nodes_kept (heap w) (heap w')"
proof (rule createDom_rel [of "\<lambda>w w'. nodes_kept (heap w) (heap w')" F, OF _ _ _ assms(2)])
  show "\<And>w. nodes_kept (heap w) (heap w)" by (rule nodes_kept_refl)
  show "\<And>a b c. nodes_kept (heap a) (heap b) \<Longrightarrow> nodes_kept (heap b) (heap c) \<Longrightarrow>
      nodes_kept (heap a) (heap c)"
    by (rule nodes_kept_trans)
  show "\<And>f args w r w'. F f args w = Inr (r, w') \<Longrightarrow> nodes_kept (heap w) (heap w')"
    using assms(1) by (auto simp add: keeps_nodes_def)
qed

lemma render_nodes_kept:
  assumes keeps: "keeps_nodes F" and run: "render F n component mount w = Inr w'"
  shows "nodes_kept (heap w) (heap w')"
proof -
  from run obtain r w0 rc w1 d w3 where
    w0: "w0 = w\<lparr>display := (display w)(r := remove_children (display w r))\<rparr>"
    and rec: "reconcile F n (if component = Undefined then g_component w else component) w0
        = Inr (rc, w1)"
    and dom: "createDom F n rc
        (w1\<lparr>g_hooks := True,
            g_component := (if component = Undefined then g_component w else component),
            g_root := (if mount = Undefined then g_root w else mount)\<rparr>) = Inr (d, w3)"
    and w': "w' = w3\<lparr>display := (display w3)(r := display w3 r @ [d])\<rparr>"
    by (auto simp add: render_def Let_def split: jsval.splits sum.splits prod.splits)
  from reconcile_nodes_kept [OF keeps rec] createDom_nodes_kept [OF keeps dom] w0 w'
  show ?thesis by (auto intro: nodes_kept_trans)
qed

lemma static_app_keeps_nodes: "keeps_nodes static_app"
proof -
  have "nodes_kept (heap w) (heap w')"
    if "createElement (Str ''p'') Null [Str ''hello''] w = (r, w')" for w w' :: probed and r
    using createElement_spec [OF that] by (auto simp add: nodes_kept_append)
  then show ?thesis
    by (auto simp add: keeps_nodes_def static_app_def)
qed

lemma replace_child_spec:
  assumes self: "\<And>v w r w'. self v w = Inr (r, w') \<Longrightarrow> nodes_kept (heap w) (heap w')"
    and link: "children_link (heap w) c (Object a)"
    and i: "i < length (elements (heap w) (Object a))"
    and run: "replace_child self c i w = Inr w'"
  shows "\<exists>r w1. self (elements (heap w) (Object a) ! i) w = Inr (r, w1)
     \<and> w' = w1\<lparr>heap := (heap w1)[a := ArrayObject ((elements (heap w1) (Object a))[i := r])]\<rparr>
     \<and> length (elements (heap w1) (Object a)) = length (elements (heap w) (Object a))"
proof -
  from link obtain cps pps where
    fc: "fetch (heap w) c = Some (PlainObject cps)"
    and fp: "fetch (heap w) (lookup cps ''props'') = Some (PlainObject pps)"
    and ch: "lookup pps ''children'' = Object a" and arr: "is_array (heap w) (Object a)"
    by (auto simp add: children_link_def)
  from arr obtain xs where a: "a < length (heap w)" "heap w ! a = ArrayObject xs"
    by (auto simp add: is_array_def fetch_def split: if_splits obj.splits)
  then have fa: "fetch (heap w) (Object a) = Some (ArrayObject xs)" by (simp add: fetch_def)
  have el: "elements (heap w) (Object a) = xs" using fa by (simp add: elements_def)
  have read: "index_get (heap w) (Object a) i = xs ! i"
    using fa i el by (simp add: index_get_def array_get_def)
  from run fc fp ch obtain r w1 where
    s1: "self (xs ! i) w = Inr (r, w1)" and s2: "index_set (Object a) i r w1 = Inr w'"
    by (auto simp add: replace_child_def get_field_fetched nullish_def read
        split: sum.splits prod.splits)
  from self [OF s1] have k1: "nodes_kept (heap w) (heap w1)" .
  from fetch_kept_array [OF k1 fa] obtain ys where
    ys: "fetch (heap w1) (Object a) = Some (ArrayObject ys)" "entries_kept (heap w) xs ys"
    by blast
  from ys(1) have a1: "a < length (heap w1)" "heap w1 ! a = ArrayObject ys"
    by (auto simp add: fetch_def split: if_splits)
  from ys(2) i el have len: "length ys = length xs" "i < length ys"
    by (simp_all add: entries_kept_iff)
  have el1: "elements (heap w1) (Object a) = ys" using ys(1) by (simp add: elements_def)
  from s2 a1 len have "w' = w1\<lparr>heap := (heap w1)[a := ArrayObject (ys[i := r])]\<rparr>"
    by (auto simp add: index_set_def array_set_def)
  with s1 el el1 len show ?thesis by auto
qed

lemma forEach_reconcile_append:
  "forEach_reconcile self c arr (is @ js) w =
     (case forEach_reconcile self c arr is w of
        Inl e \<Rightarrow> Inl e
      | Inr w1 \<Rightarrow> forEach_reconcile self c arr js w1)"
  by (induction "is" arbitrary: w) (auto split: sum.splits)

lemma get_field_string_kind:
  "string_kind h v \<Longrightarrow> \<exists>ty. get_field h v ''type'' = Inr ty \<and> typeof ty = ''string''"
  by (auto dest!: string_kind_fetch simp add: get_field_fetched)

lemma forEach_reconcile_plain:
  assumes "\<forall>j\<in>set is. j < length (elements (heap w) arr)
      \<longrightarrow> string_kind (heap w) (elements (heap w) arr ! j)"
  shows "forEach_reconcile self c arr is w = Inr w"
  using assms
proof (induction "is")
  case Nil
  then show ?case by simp
next
  case (Cons j "is")
  show ?case
  proof (cases "j < length (elements (heap w) arr)")
    case False
    with Cons show ?thesis by simp
  next
    case True
    with Cons.prems have "string_kind (heap w) (elements (heap w) arr ! j)" by simp
    from get_field_string_kind [OF this] Cons show ?thesis by auto
  qed
qed

lemma reconcile_one_component_child:
  assumes keeps: "keeps_nodes F"
    and kind: "string_kind (heap w) c"
    and link: "children_link (heap w) c (Object a)"
    and i: "i < length (elements (heap w) (Object a))"
    and only: "\<forall>j<length (elements (heap w) (Object a)).
        (j = i) = (\<not> string_kind (heap w) (elements (heap w) (Object a) ! j))"
    and run: "reconcile F (Suc n) c w = Inr (res, w')"
  shows "res = c
     \<and> (\<exists>r w1. reconcile F n (elements (heap w) (Object a) ! i) w = Inr (r, w1)
           \<and> w' = w1\<lparr>heap := (heap w1)[a := ArrayObject ((elements (heap w1) (Object a))[i := r])]\<rparr>
           \<and> elements (heap w') (Object a) = (elements (heap w) (Object a))[i := r])"
proof -
  define xs where "xs = elements (heap w) (Object a)"
  have self: "\<And>v w r w'. reconcile F n v w = Inr (r, w') \<Longrightarrow> nodes_kept (heap w) (heap w')"
    by (rule reconcile_nodes_kept [OF keeps])
  from link obtain cps pps where
    fc: "fetch (heap w) c = Some (PlainObject cps)"
    and fp: "fetch (heap w) (lookup cps ''props'') = Some (PlainObject pps)"
    and ch: "lookup pps ''children'' = Object a" and arr: "is_array (heap w) (Object a)"
    by (auto simp add: children_link_def)
  from kind fc have ty: "typeof (lookup cps ''type'') = ''string''"
    by (simp add: string_kind_def get_field_opt_fetched)
  have not_arr: "\<not> is_array (heap w) c" using fc by (simp add: is_array_def)
  have props: "get_field_opt (heap w) c ''props'' = lookup cps ''props''"
    using fc by (simp add: get_field_opt_fetched)
  have kids: "get_field_opt (heap w) (lookup cps ''props'') ''children'' = Object a"
    using fp ch by (simp add: get_field_opt_fetched)
  have tp: "truthy (lookup cps ''props'')" using fp by (rule truthy_fetched)
  from run have "reconcile_body F (reconcile F n) c w = Inr (res, w')" by simp
  then have res: "res = c"
    and loop: "forEach_reconcile (reconcile F n) c (Object a) [0..<length xs] w = Inr w'"
    using fc ty not_arr props kids tp arr
    by (auto simp add: reconcile_body_def get_field_fetched resolve_def reconcile_children_def
        Let_def xs_def split: sum.splits if_splits)
  from i have split: "[0..<length xs] = [0..<i] @ [i] @ [Suc i..<length xs]"
    unfolding xs_def
    by (metis append_Cons append_Nil le0 less_imp_le_nat upt_add_eq_append upt_conv_Cons
        le_add_diff_inverse)
  have before: "forEach_reconcile (reconcile F n) c (Object a) [0..<i] w = Inr w"
  proof (rule forEach_reconcile_plain, intro ballI impI)
    fix j assume "j \<in> set [0..<i]" and "j < length (elements (heap w) (Object a))"
    with only show "string_kind (heap w) (elements (heap w) (Object a) ! j)" by auto
  qed
  from only i have notstr: "\<not> string_kind (heap w) (elements (heap w) (Object a) ! i)" by auto
  from loop obtain w2 where
    turn: "forEach_reconcile (reconcile F n) c (Object a) [i] w = Inr w2"
    and after: "forEach_reconcile (reconcile F n) c (Object a) [Suc i..<length xs] w2 = Inr w'"
    unfolding split forEach_reconcile_append before
    by (auto simp add: forEach_reconcile_append split: sum.splits)
  from turn i obtain child_type where
    ct: "get_field (heap w) (elements (heap w) (Object a) ! i) ''type'' = Inr child_type"
    and step: "(if typeof child_type \<noteq> ''string'' then replace_child (reconcile F n) c i w
                else Inr w) = Inr w2"
    by (auto split: sum.splits)
  from ct notstr have "typeof child_type \<noteq> ''string''"
    by (auto simp add: string_kind_def get_field_opt_of_get_field)
  with step have rc: "replace_child (reconcile F n) c i w = Inr w2" by simp
  have "\<exists>r w1. reconcile F n (elements (heap w) (Object a) ! i) w = Inr (r, w1)
     \<and> w2 = w1\<lparr>heap := (heap w1)[a := ArrayObject ((elements (heap w1) (Object a))[i := r])]\<rparr>
     \<and> length (elements (heap w1) (Object a)) = length (elements (heap w) (Object a))"
    by (rule replace_child_spec [where self = "reconcile F n", OF _ link i rc]) (erule self)
  then obtain r w1 where
    r: "reconcile F n (elements (heap w) (Object a) ! i) w = Inr (r, w1)"
    and w2: "w2 = w1\<lparr>heap := (heap w1)[a := ArrayObject ((elements (heap w1) (Object a))[i := r])]\<rparr>"
    and len1: "length (elements (heap w1) (Object a)) = length (elements (heap w) (Object a))"
    by blast
  have k1: "nodes_kept (heap w) (heap w1)" by (rule self [OF r])
  have k2: "nodes_kept (heap w) (heap w2)"
    by (rule replace_child_nodes_kept [where self = "reconcile F n", OF _ link i notstr rc])
      (erule self)
  from arr obtain xs' where fa: "fetch (heap w) (Object a) = Some (ArrayObject xs')"
    by (auto simp add: is_array_def split: option.splits obj.splits)
  then have xs': "xs' = xs" by (simp add: xs_def elements_def)
  from fetch_kept_array [OF k1 fa] obtain ys where
    ys: "fetch (heap w1) (Object a) = Some (ArrayObject ys)" "entries_kept (heap w) xs ys"
    unfolding xs' by blast
  have el1: "elements (heap w1) (Object a) = ys" using ys(1) by (simp add: elements_def)
  from ys(1) have a1: "a < length (heap w1)" by (auto simp add: fetch_def split: if_splits)
  have "fetch (heap w2) (Object a) = Some (ArrayObject (ys[i := r]))"
    using a1 by (simp add: w2 el1 fetch_def)
  then have el2: "elements (heap w2) (Object a) = ys[i := r]"
    by (simp add: elements_def)
  have same: "ys[i := r] = xs[i := r]"
  proof (rule nth_equalityI)
    show "length (ys[i := r]) = length (xs[i := r])" using ys(2) by (simp add: entries_kept_iff)
  next
    fix j assume "j < length (ys[i := r])"
    then have j: "j < length xs" using ys(2) by (simp add: entries_kept_iff)
    show "ys[i := r] ! j = xs[i := r] ! j"
    proof (cases "j = i")
      case True
      with j ys(2) show ?thesis by (simp add: entries_kept_iff)
    next
      case False
      with only j have "string_kind (heap w) (xs ! j)" by (auto simp add: xs_def)
      with ys(2) j False show ?thesis by (auto simp add: entries_kept_iff)
    qed
  qed
  have rest: "forEach_reconcile (reconcile F n) c (Object a) [Suc i..<length xs] w2 = Inr w2"
  proof (rule forEach_reconcile_plain, intro ballI impI)
    fix j assume j: "j \<in> set [Suc i..<length xs]"
      and "j < length (elements (heap w2) (Object a))"
    then have ne: "j \<noteq> i" and lt: "j < length xs" by auto
    with only have "string_kind (heap w) (xs ! j)" by (auto simp add: xs_def)
    from string_kind_mono [OF k2 this] ne lt show
      "string_kind (heap w2) (elements (heap w2) (Object a) ! j)"
      by (simp add: el2 same)
  qed
  with after have "w' = w2" by simp
  with res r w2 el2 same show ?thesis by (auto simp add: xs_def)
qed

lemma forEach_reconcile_turn:
  assumes keeps: "keeps_nodes F"
    and link: "children_link (heap w) c (Object a)"
    and i: "i < length (elements (heap w) (Object a))"
    and run: "forEach_reconcile (reconcile F n) c (Object a) [i] w = Inr w'"
  shows "if string_kind (heap w) (elements (heap w) (Object a) ! i) then w' = w
     else (\<exists>r w1. reconcile F n (elements (heap w) (Object a) ! i) w = Inr (r, w1)
             \<and> w' = w1\<lparr>heap := (heap w1)[a := ArrayObject ((elements (heap w1) (Object a))[i := r])]\<rparr>)"
proof (cases "string_kind (heap w) (elements (heap w) (Object a) ! i)")
  case True
  then have "forEach_reconcile (reconcile F n) c (Object a) [i] w = Inr w"
    by (intro forEach_reconcile_plain) simp
  with run True show ?thesis by simp
next
  case False
  from run i obtain child_type where
    ct: "get_field (heap w) (elements (heap w) (Object a) ! i) ''type'' = Inr child_type"
    and step: "(if typeof child_type \<noteq> ''string'' then replace_child (reconcile F n) c i w
                else Inr w) = Inr w'"
    by (auto split: sum.splits)
  from ct False have "typeof child_type \<noteq> ''string''"
    by (auto simp add: string_kind_def get_field_opt_of_get_field)
  with step have rc: "replace_child (reconcile F n) c i w = Inr w'" by simp
  have "\<exists>r w1. reconcile F n (elements (heap w) (Object a) ! i) w = Inr (r, w1)
     \<and> w' = w1\<lparr>heap := (heap w1)[a := ArrayObject ((elements (heap w1) (Object a))[i := r])]\<rparr>
     \<and> length (elements (heap w1) (Object a)) = length (elements (heap w) (Object a))"
    by (rule replace_child_spec [where self = "reconcile F n", OF _ link i rc])
      (erule reconcile_nodes_kept [OF keeps])
  with False show ?thesis by auto
qed

lemma elements_length_kept:
  assumes "nodes_kept h h'" and "is_array h v"
  shows "length (elements h' v) = length (elements h v)"
proof -
  from assms(2) obtain xs where f: "fetch h v = Some (ArrayObject xs)"
    by (auto simp add: is_array_def split: option.splits obj.splits)
  from fetch_kept_array [OF assms(1) f] f show ?thesis
    by (auto simp add: elements_def entries_kept_iff)
qed

lemma forEach_reconcile_trace:
  assumes keeps: "keeps_nodes F"
  shows "children_link (heap w) c (Object a) \<Longrightarrow>
     \<forall>i\<in>set is. i < length (elements (heap w) (Object a)) \<Longrightarrow>
     forEach_reconcile (reconcile F n) c (Object a) is w = Inr w' \<Longrightarrow>
     \<exists>us. length us = Suc (length is) \<and> us ! 0 = w \<and> us ! length is = w'
       \<and> (\<forall>k<length is. entry_resolved F n a (is ! k) (us ! k) (us ! Suc k))"
proof (induction "is" arbitrary: w)
  case Nil
  then have "length [w] = Suc (length ([] :: nat list)) \<and> [w] ! 0 = w \<and> [w] ! length ([] :: nat list) = w'
       \<and> (\<forall>k<length ([] :: nat list). entry_resolved F n a ([] ! k) ([w] ! k) ([w] ! Suc k))"
    by simp
  then show ?case by blast
next
  case (Cons i "is")
  have self: "\<And>v w r w'. reconcile F n v w = Inr (r, w') \<Longrightarrow> nodes_kept (heap w) (heap w')"
    by (rule reconcile_nodes_kept [OF keeps])
  from Cons.prems(2) have i: "i < length (elements (heap w) (Object a))" by simp
  from Cons.prems(3) have "forEach_reconcile (reconcile F n) c (Object a) ([i] @ is) w = Inr w'"
    by simp
  then obtain w1 where
    turn: "forEach_reconcile (reconcile F n) c (Object a) [i] w = Inr w1"
    and rest: "forEach_reconcile (reconcile F n) c (Object a) is w1 = Inr w'"
    unfolding forEach_reconcile_append by (auto split: sum.splits)
  from forEach_reconcile_turn [OF keeps Cons.prems(1) i turn]
  have first: "entry_resolved F n a i w w1" by (simp add: entry_resolved_def)
  have k1: "nodes_kept (heap w) (heap w1)"
    by (rule forEach_reconcile_nodes_kept
          [where self = "reconcile F n", OF _ Cons.prems(1) turn]) (erule self)
  from Cons.prems(1) have arr: "is_array (heap w) (Object a)" by (auto simp add: children_link_def)
  from elements_length_kept [OF k1 arr] Cons.prems(2)
  have bounds: "\<forall>j\<in>set is. j < length (elements (heap w1) (Object a))" by simp
  from Cons.IH [OF children_link_kept [OF k1 Cons.prems(1)] bounds rest] obtain us where
    us: "length us = Suc (length is)" "us ! 0 = w1" "us ! length is = w'"
      "\<forall>k<length is. entry_resolved F n a (is ! k) (us ! k) (us ! Suc k)"
    by blast
  have all: "\<forall>k<length (i # is). entry_resolved F n a ((i # is) ! k) ((w # us) ! k) ((w # us) ! Suc k)"
  proof (intro allI impI)
    fix k assume "k < length (i # is)"
    then show "entry_resolved F n a ((i # is) ! k) ((w # us) ! k) ((w # us) ! Suc k)"
      using first us by (cases k) auto
  qed
  have "length (w # us) = Suc (length (i # is)) \<and> (w # us) ! 0 = w
      \<and> (w # us) ! length (i # is) = w'"
    using us by simp
  with all show ?case by blast
qed

lemma reconcile_plain_node:
  assumes keeps: "keeps_nodes F"
    and kind: "string_kind (heap w) c"
    and link: "children_link (heap w) c (Object a)"
    and run: "reconcile F (Suc n) c w = Inr (res, w')"
  shows "res = c
     \<and> forEach_reconcile (reconcile F n) c (Object a)
          [0..<length (elements (heap w) (Object a))] w = Inr w'"
proof -
  from link obtain cps pps where
    fc: "fetch (heap w) c = Some (PlainObject cps)"
    and fp: "fetch (heap w) (lookup cps ''props'') = Some (PlainObject pps)"
    and ch: "lookup pps ''children'' = Object a" and arr: "is_array (heap w) (Object a)"
    by (auto simp add: children_link_def)
  from kind fc have ty: "typeof (lookup cps ''type'') = ''string''"
    by (simp add: string_kind_def get_field_opt_fetched)
  have not_arr: "\<not> is_array (heap w) c" using fc by (simp add: is_array_def)
  have props: "get_field_opt (heap w) c ''props'' = lookup cps ''props''"
    using fc by (simp add: get_field_opt_fetched)
  have kids: "get_field_opt (heap w) (lookup cps ''props'') ''children'' = Object a"
    using fp ch by (simp add: get_field_opt_fetched)
  have tp: "truthy (lookup cps ''props'')" using fp by (rule truthy_fetched)
  from run have "reconcile_body F (reconcile F n) c w = Inr (res, w')" by simp
  then show ?thesis
    using fc ty not_arr props kids tp arr
    by (auto simp add: reconcile_body_def get_field_fetched resolve_def reconcile_children_def
        Let_def split: sum.splits if_splits)
qed

lemma reconcile_turns:
  assumes keeps: "keeps_nodes F"
    and kind: "string_kind (heap w) c"
    and link: "children_link (heap w) c (Object a)"
    and run: "reconcile F (Suc n) c w = Inr (res, w')"
  shows "res = c
     \<and> (\<exists>us. length us = Suc (length (elements (heap w) (Object a)))
           \<and> us ! 0 = w \<and> us ! length (elements (heap w) (Object a)) = w'
           \<and> (\<forall>i<length (elements (heap w) (Object a)).
                 entry_resolved F n a i (us ! i) (us ! Suc i)))"
proof -
  from reconcile_plain_node [OF keeps kind link run] have res: "res = c"
    and loop: "forEach_reconcile (reconcile F n) c (Object a)
          [0..<length (elements (heap w) (Object a))] w = Inr w'"
    by simp_all
  have "\<forall>i\<in>set [0..<length (elements (heap w) (Object a))].
      i < length (elements (heap w) (Object a))"
    by simp
  from forEach_reconcile_trace [OF keeps link this loop] res show ?thesis
    by auto
qed

lemma createElement_fresh: "\<not> allocated (heap w) (fst (createElement ty props children w))"
proof -
  obtain cs w1 where n: "normalize children w = (cs, w1)" by (cases "normalize children w")
  from normalize_spec [OF n] obtain ext where "heap w1 = heap w @ ext" by blast
  with n show ?thesis
    by (simp add: createElement_def alloc_def allocated_def)
qed

text \<open>
  C2, as the code has it. The node builder makes its node a new object and changes no
  existing object: the heap only grows. Provided the functions of the program do no more
  themselves, \<open>reconcile\<close> and \<open>render\<close> leave every node object and every property object
  that exists as it is: its kind, its properties and the array its \<open>children\<close> property refers
  to. Of an existing children array they keep the length and every entry whose kind is a
  plain tag. An entry whose kind is no plain tag is overwritten in place: at its turn the
  loop over the children array calls \<open>reconcile\<close> on the entry and stores what the call
  returns at the entry's index, and changes nothing else in the state that the call left.
  \<open>reconcile\<close> returns a node of a plain tag as the same node, after one such turn for every
  index of its children array in order. When exactly one child is no plain tag, the children
  array holds at the end the value returned for that child in the child's place.
\<close>

theorem reconcile_keeps_nodes:
  "(keeps_nodes F \<and> reconcile F n v w = Inr (r, w') \<longrightarrow> nodes_kept (heap w) (heap w'))
   \<and> (keeps_nodes F \<and> render F n component mount w = Inr w'' \<longrightarrow> nodes_kept (heap w) (heap w''))
   \<and> nodes_kept (heap w) (heap (snd (createElement ty props children w)))
   \<and> \<not> allocated (heap w) (fst (createElement ty props children w))
   \<and> (keeps_nodes F \<and> children_link (heap u) c (Object a)
        \<and> i < length (elements (heap u) (Object a))
        \<and> forEach_reconcile (reconcile F n) c (Object a) [i] u = Inr u' \<longrightarrow>
        entry_resolved F n a i u u')
   \<and> (keeps_nodes F \<and> string_kind (heap u) c \<and> children_link (heap u) c (Object a)
        \<and> reconcile F (Suc n) c u = Inr (res, u'') \<longrightarrow>
        res = c
        \<and> (\<exists>us. length us = Suc (length (elements (heap u) (Object a)))
               \<and> us ! 0 = u \<and> us ! length (elements (heap u) (Object a)) = u''
               \<and> (\<forall>k<length (elements (heap u) (Object a)).
                     entry_resolved F n a k (us ! k) (us ! Suc k))))
   \<and> (keeps_nodes F \<and> string_kind (heap u) c \<and> children_link (heap u) c (Object a)
        \<and> i < length (elements (heap u) (Object a))
        \<and> (\<forall>j<length (elements (heap u) (Object a)).
              (j = i) = (\<not> string_kind (heap u) (elements (heap u) (Object a) ! j)))
        \<and> reconcile F (Suc n) c u = Inr (res, u'') \<longrightarrow>
        res = c
        \<and> (\<exists>x u1. reconcile F n (elements (heap u) (Object a) ! i) u = Inr (x, u1)
               \<and> u'' = u1\<lparr>heap := (heap u1)
                            [a := ArrayObject ((elements (heap u1) (Object a))[i := x])]\<rparr>
               \<and> elements (heap u'') (Object a) = (elements (heap u) (Object a))[i := x]))"
proof -
  have built: "nodes_kept (heap w) (heap (snd (createElement ty props children w)))"
    using createElement_spec [of ty props children w
        "fst (createElement ty props children w)" "snd (createElement ty props children w)"]
    by (auto simp add: nodes_kept_append)
  from reconcile_nodes_kept [of F n v w r w'] render_nodes_kept [of F n component mount w w'']
    built createElement_fresh [of w ty props children]
    forEach_reconcile_turn [of F u c a i n u']
    reconcile_turns [of F u c a n res u'']
    reconcile_one_component_child [of F u c a i n res u'']
  show ?thesis unfolding entry_resolved_def [of F n a i u u'] by blast
qed

theorem reconcile_keeps_nodes_witness:
  "keeps_nodes static_app
   \<and> (\<exists>r w'. reconcile static_app 3 (fst wrapped_tree) (snd wrapped_tree) = Inr (r, w')
        \<and> nodes_kept (heap (snd wrapped_tree)) (heap w')
        \<and> r = fst wrapped_tree
        \<and> (\<exists>x u1. reconcile static_app 2 (Object 2) (snd wrapped_tree) = Inr (x, u1)
               \<and> elements (heap w') (Object 3) = [x]))"
proof -
  have "case reconcile static_app 3 (fst wrapped_tree) (snd wrapped_tree) of
          Inl e \<Rightarrow> False | Inr (r, w') \<Rightarrow> True"
    by code_simp
  then obtain r w' where run:
    "reconcile static_app (Suc 2) (fst wrapped_tree) (snd wrapped_tree) = Inr (r, w')"
    by (cases "reconcile static_app 3 (fst wrapped_tree) (snd wrapped_tree)")
      (auto simp add: eval_nat_numeral)
  have tree: "fst wrapped_tree = Object 5"
    "heap (snd wrapped_tree) =
       [ArrayObject [], PlainObject [(''children'', Object 0)],
        PlainObject [(''type'', Function 0), (''props'', Object 1)],
        ArrayObject [Object 2], PlainObject [(''children'', Object 3)],
        PlainObject [(''type'', Str ''div''), (''props'', Object 4)]]"
    by code_simp+
  have kind: "string_kind (heap (snd wrapped_tree)) (fst wrapped_tree)"
    by code_simp
  have link: "children_link (heap (snd wrapped_tree)) (fst wrapped_tree) (Object 3)"
    by (simp add: tree children_link_def fetch_def lookup_def is_array_def)
  have entries: "elements (heap (snd wrapped_tree)) (Object 3) = [Object 2]"
    by (simp add: tree elements_def fetch_def)
  have component: "\<not> string_kind (heap (snd wrapped_tree)) (Object 2)"
    by code_simp
  have only: "\<forall>j<length (elements (heap (snd wrapped_tree)) (Object 3)).
      (j = 0) = (\<not> string_kind (heap (snd wrapped_tree))
                     (elements (heap (snd wrapped_tree)) (Object 3) ! j))"
    unfolding entries using component by simp
  have bound: "0 < length (elements (heap (snd wrapped_tree)) (Object 3))"
    unfolding entries by simp
  note at_tree = reconcile_keeps_nodes
    [where F = static_app and n = 2 and v = Undefined and w = "snd wrapped_tree"
       and r = Undefined and w' = "snd wrapped_tree" and component = Undefined
       and mount = Undefined and w'' = "snd wrapped_tree" and ty = Undefined
       and props = Undefined and children = "[]" and u = "snd wrapped_tree"
       and c = "fst wrapped_tree" and a = 3 and i = 0 and u' = "snd wrapped_tree"
       and res = r and u'' = w']
  from at_tree static_app_keeps_nodes kind link bound only run
  have "r = fst wrapped_tree
      \<and> (\<exists>x u1. reconcile static_app 2
                 (elements (heap (snd wrapped_tree)) (Object 3) ! 0) (snd wrapped_tree)
               = Inr (x, u1)
             \<and> elements (heap w') (Object 3)
               = (elements (heap (snd wrapped_tree)) (Object 3))[0 := x])"
    by blast
  then have one: "r = fst wrapped_tree
      \<and> (\<exists>x u1. reconcile static_app 2 (Object 2) (snd wrapped_tree) = Inr (x, u1)
             \<and> elements (heap w') (Object 3) = [x])"
    unfolding entries by simp
  from reconcile_keeps_nodes [of static_app 3 "fst wrapped_tree" "snd wrapped_tree" r w']
    static_app_keeps_nodes run
  have "nodes_kept (heap (snd wrapped_tree)) (heap w')"
    by (simp add: eval_nat_numeral)
  with static_app_keeps_nodes run one show ?thesis
    by (auto simp add: eval_nat_numeral)
qed

text \<open>
  C2 as stated fails. The node builder makes \<^verbatim>\<open><div><Hello /></div>\<close>; the only entry of the
  children array of the \<open>div\<close> node is the \<open>Hello\<close> node at address 2. \<open>reconcile\<close> returns the same
  \<open>div\<close> node with that entry overwritten by the \<open>p\<close> node that \<open>Hello\<close> returned.
\<close>

theorem reconcile_mutates_children_counterexample:
  "children_of (heap (snd wrapped_tree)) (fst wrapped_tree) = [Object 2]
   \<and> get_field_opt (heap (snd wrapped_tree)) (Object 2) ''type'' = Function 0
   \<and> (case reconcile static_app 3 (fst wrapped_tree) (snd wrapped_tree) of
         Inl e \<Rightarrow> False
       | Inr (resolved, w3) \<Rightarrow>
           resolved = fst wrapped_tree
           \<and> children_of (heap w3) (fst wrapped_tree) = [Object 11]
           \<and> get_field_opt (heap w3) (Object 11) ''type'' = Str ''p'')"
  by code_simp

end
